theory Spec2Isabelle
  imports Main "HOL-Library.Word"
begin

unbundle bit_operations_syntax

section \<open>Common data\<close>

text \<open>
  Go's \<open>byte\<close> is an 8-bit word.  Go's \<open>int\<close> is modelled as \<open>int\<close> wherever the
  values are lengths or sizes far below \<open>2^63\<close>, and as \<open>64 word\<close> for the connection
  counter, which the code increments without any bound.
\<close>

type_synonym byte = "8 word"

text \<open>
  What a Go function call can end in: a normal return of a value, a returned
  non-nil \<open>error\<close>, or a run-time panic.
\<close>

datatype error =
    EOF
  | ErrUnexpectedEOF
  | AddrTypeNotSupported nat
  | KeySizeError nat
  | CipherError
  | DialError
  | ConfigError
  | NotEnoughOptions

datatype 'a outcome = Ok 'a | Err error | Panic

section \<open>AES-CTR stream construction (\<open>crypto/stream/aes-ctr.go\<close>)\<close>

text \<open>
  \<open>aes.NewCipher\<close> and \<open>cipher.NewCTR\<close> belong to Go's standard library.  Their
  documented interface is all that \<open>AESCTR.new\<close> depends on: \<open>aes.NewCipher\<close> returns a
  \<open>KeySizeError\<close> unless the key has 16, 24 or 32 bytes, and \<open>cipher.NewCTR\<close> panics
  unless the IV has the length of the block (16 bytes for AES).  The block and the
  stream themselves are opaque values.
\<close>

datatype Block = AESBlock "byte list"

datatype Stream = CTRStream Block "byte list"

definition aes_BlockSize :: nat where
  "aes_BlockSize = 16"

definition aes_NewCipher :: "byte list \<Rightarrow> error + Block" where
  "aes_NewCipher key =
     (if length key = 16 \<or> length key = 24 \<or> length key = 32
      then Inr (AESBlock key)
      else Inl (KeySizeError (length key)))"

definition cipher_NewCTR :: "Block \<Rightarrow> byte list \<Rightarrow> Stream outcome" where
  "cipher_NewCTR block iv =
     (if length iv \<noteq> aes_BlockSize then Panic else Ok (CTRStream block iv))"

text \<open>
  The three results of \<open>AESCTR.new\<close> are \<open>(cipher.Stream, cipher.AEAD, error)\<close>; a nil
  interface value is \<open>None\<close>.  The AEAD result is nil on every path, so its type
  carries no data.
\<close>

type_synonym new_result = "Stream option \<times> unit option \<times> error option"

definition AESCTR_new :: "byte list \<Rightarrow> byte list \<Rightarrow> new_result outcome" where
  "AESCTR_new key iv =
     (case aes_NewCipher key of
        Inl err \<Rightarrow> Ok (None, None, Some err)
      | Inr block \<Rightarrow>
          (case cipher_NewCTR block iv of
             Panic \<Rightarrow> Panic
           | Err e \<Rightarrow> Panic
           | Ok s \<Rightarrow> Ok (Some s, None, None)))"

section \<open>AEAD chunk framing (\<open>ConnAead\<close>)\<close>

definition getPayloadSizeMask :: int where
  "getPayloadSizeMask = 0x3FFF"

text \<open>
  The payload size computed by \<open>UnPack\<close> from the two decrypted header bytes:
  \<^verbatim>\<open>int(header[0])<<8 + int(header[1]) & this.getPayloadSizeMask()\<close>.
  In Go the operators \<open><<\<close> and \<open>&\<close> share the highest binary precedence and
  \<open>+\<close> binds weaker, so the expression reads
  \<open>(int(header[0])<<8) + (int(header[1]) & mask)\<close>.
\<close>

definition payload_size_of :: "byte \<Rightarrow> byte \<Rightarrow> int" where
  "payload_size_of h0 h1 = push_bit 8 (uint h0) + (uint h1 AND getPayloadSizeMask)"


section \<open>Byte buffers and readers\<close>

text \<open>Go's slice expression \<open>xs[i:j]\<close> and \<open>copy(buf[i:], bs)\<close> on a fixed-size buffer.\<close>

definition slice :: "'a list \<Rightarrow> nat \<Rightarrow> nat \<Rightarrow> 'a list" where
  "slice xs i j = take (j - i) (drop i xs)"

definition copy_into :: "'a list \<Rightarrow> nat \<Rightarrow> 'a list \<Rightarrow> 'a list" where
  "copy_into buf i bs = take (length buf) (take i buf @ bs @ drop (i + length bs) buf)"

text \<open>
  A connection, seen from its reading end, is the sequence of byte blocks that
  successive \<open>Read\<close> calls of the transport will deliver; how the peer's bytes are cut
  into blocks is up to the network.  \<open>Read\<close> with a buffer of \<open>n\<close> bytes takes at most
  \<open>n\<close> bytes of the next block and leaves the rest of that block for the next call; when
  no block is left the peer has closed and \<open>Read\<close> returns \<open>io.EOF\<close>.
\<close>

type_synonym conn = "byte list list"

fun Read :: "nat \<Rightarrow> conn \<Rightarrow> error + (byte list \<times> conn)" where
  "Read n [] = Inl EOF"
| "Read n (c # cs) = Inr (take n c, if n < length c then drop n c # cs else cs)"

text \<open>
  \<open>io.ReadFull(r, buf)\<close> is \<open>io.ReadAtLeast(r, buf, len(buf))\<close>:
  \<^verbatim>\<open>for n < min && err == nil { nn, err = r.Read(buf[n:]); n += nn }\<close>
  followed by \<open>err = nil\<close> when \<open>n >= min\<close>, and \<open>ErrUnexpectedEOF\<close> instead of \<open>EOF\<close> when
  some but not all bytes were read.  \<open>need\<close> is \<open>min - n\<close>, \<open>got\<close> the bytes read so far.
\<close>

function ReadAtLeast :: "nat \<Rightarrow> byte list \<Rightarrow> conn \<Rightarrow> error + (byte list \<times> conn)" where
  "ReadAtLeast need got r =
     (if need = 0 then Inr (got, r)
      else (case r of
              [] \<Rightarrow> Inl (if got = [] then EOF else ErrUnexpectedEOF)
            | c # cs \<Rightarrow>
                ReadAtLeast (need - length (take need c)) (got @ take need c)
                  (if need < length c then drop need c # cs else cs)))"
  by pat_completeness auto
termination
  by (relation "measures [\<lambda>(need, got, r). need, \<lambda>(need, got, r). length r]")
     (auto simp: min_def split: if_splits)

definition ReadFull :: "nat \<Rightarrow> conn \<Rightarrow> error + (byte list \<times> conn)" where
  "ReadFull n r = ReadAtLeast n [] r"

section \<open>Request decoding (\<open>getRequest\<close>)\<close>

definition AddrMask :: byte where "AddrMask = 0xf"
definition idType :: nat where "idType = 0"
definition idIP0 :: nat where "idIP0 = 1"
definition idDmLen :: nat where "idDmLen = 1"
definition idDm0 :: nat where "idDm0 = 2"
definition typeIPv4 :: byte where "typeIPv4 = 1"
definition typeDm :: byte where "typeDm = 3"
definition typeIPv6 :: byte where "typeIPv6 = 4"
definition IPv4len :: nat where "IPv4len = 4"
definition IPv6len :: nat where "IPv6len = 16"
definition lenIPv4 :: nat where "lenIPv4 = IPv4len + 2"
definition lenIPv6 :: nat where "lenIPv6 = IPv6len + 2"
definition lenDmBase :: nat where "lenDmBase = 2"

text \<open>Go's \<open>string(bytes)\<close>: the same bytes, read as a string.\<close>

definition string_of_bytes :: "byte list \<Rightarrow> string" where
  "string_of_bytes bs = map (\<lambda>b. char_of (unat b)) bs"

text \<open>\<open>strconv.Itoa\<close>: the decimal digits of an integer, with a leading minus sign.\<close>

function Itoa_nat :: "nat \<Rightarrow> string" where
  "Itoa_nat n =
     (if n < 10 then [char_of (48 + n)]
      else Itoa_nat (n div 10) @ [char_of (48 + n mod 10)])"
  by pat_completeness auto
termination
  by (relation "measure (\<lambda>n. n)") auto

definition Itoa :: "int \<Rightarrow> string" where
  "Itoa i = (if i < 0 then CHR ''-'' # Itoa_nat (nat (- i)) else Itoa_nat (nat i))"

text \<open>
  \<open>net.JoinHostPort\<close> (Go standard library): a host that contains a colon is taken for
  an IPv6 literal and put in brackets.
\<close>

definition JoinHostPort :: "string \<Rightarrow> string \<Rightarrow> string" where
  "JoinHostPort host port =
     (if CHR '':'' \<in> set host then ''['' @ host @ '']:'' @ port
      else host @ '':'' @ port)"

text \<open>\<open>binary.BigEndian.Uint16\<close> on a two-byte slice.\<close>

definition BigEndian_Uint16 :: "byte list \<Rightarrow> 16 word" where
  "BigEndian_Uint16 b = (ucast (b ! 1) OR push_bit 8 (ucast (b ! 0)))"

text \<open>
  The repository holds two copies of the server.  The older copy reads the request
  piece by piece with \<open>io.ReadFull\<close> into a 269-byte buffer; it is \<open>getRequest_full\<close>
  here.  \<open>net.IP.String\<close> is a parameter \<open>ipString\<close>.  The part after the address-type
  switch is \<open>getRequest_rest\<close>.
\<close>

definition getRequest_rest ::
  "(byte list \<Rightarrow> string) \<Rightarrow> byte \<Rightarrow> nat \<Rightarrow> nat \<Rightarrow> byte list \<Rightarrow> conn \<Rightarrow> (string \<times> conn) outcome" where
  "getRequest_rest ipString addrType reqStart reqEnd buf r =
     (case ReadFull (reqEnd - reqStart) r of
        Inl err \<Rightarrow> Err err
      | Inr (bs, r') \<Rightarrow>
          (let buf' = copy_into buf reqStart bs;
               host =
                 (if addrType AND AddrMask = typeIPv4 then ipString (slice buf' idIP0 (idIP0 + IPv4len))
                  else if addrType AND AddrMask = typeIPv6 then ipString (slice buf' idIP0 (idIP0 + IPv6len))
                  else string_of_bytes (slice buf' idDm0 (idDm0 + unat (buf' ! idDmLen))));
               port = BigEndian_Uint16 (slice buf' (reqEnd - 2) reqEnd)
           in Ok (JoinHostPort host (Itoa (uint port)), r')))"

definition getRequest_full :: "(byte list \<Rightarrow> string) \<Rightarrow> conn \<Rightarrow> (string \<times> conn) outcome" where
  "getRequest_full ipString r =
     (let buf = replicate 269 (0 :: byte) in
      case ReadFull (idType + 1) r of
        Inl err \<Rightarrow> Err err
      | Inr (b, r1) \<Rightarrow>
          (let buf1 = copy_into buf 0 b;
               addrType = buf1 ! idType
           in if addrType AND AddrMask = typeIPv4 then
                getRequest_rest ipString addrType idIP0 (idIP0 + lenIPv4) buf1 r1
              else if addrType AND AddrMask = typeIPv6 then
                getRequest_rest ipString addrType idIP0 (idIP0 + lenIPv6) buf1 r1
              else if addrType AND AddrMask = typeDm then
                (case ReadFull (idDmLen + 1 - (idType + 1)) r1 of
                   Inl err \<Rightarrow> Err err
                 | Inr (l, r2) \<Rightarrow>
                     (let buf2 = copy_into buf1 (idType + 1) l
                      in getRequest_rest ipString addrType idDm0
                           (idDm0 + unat (buf2 ! idDmLen) + lenDmBase) buf2 r2))
              else Err (AddrTypeNotSupported (unat (addrType AND AddrMask)))))"

text \<open>
  The newer copy calls \<open>conn.Read\<close> once with a 2048-byte buffer, hands what that one
  call returned to the cipher's \<open>UnPack\<close> and decodes the request from the resulting
  \<open>data\<close>; it is \<open>getRequest_once\<close> here.  \<open>UnPack\<close> of \<open>CipherStream\<close> and of
  \<open>CipherAead\<close> is not part of the sources at hand and is a parameter of the cipher;
  the error it returns is overwritten by the next statement, so only the bytes count.
  For any other cipher type \<open>data\<close> stays nil.  Indexing or slicing \<open>data\<close> beyond its
  length is a run-time panic (\<open>data\<close> is taken to have no spare capacity).
\<close>

datatype Cipher =
    CipherStream "byte list \<Rightarrow> byte list"
  | CipherAead "byte list \<Rightarrow> byte list"
  | CipherOther

fun Cipher_UnPack :: "Cipher \<Rightarrow> byte list \<Rightarrow> byte list" where
  "Cipher_UnPack (CipherStream f) bs = f bs"
| "Cipher_UnPack (CipherAead f) bs = f bs"
| "Cipher_UnPack CipherOther bs = []"

definition getRequest_once ::
  "(byte list \<Rightarrow> string) \<Rightarrow> Cipher \<Rightarrow> conn \<Rightarrow> (string \<times> conn) outcome" where
  "getRequest_once ipString cipher r =
     (case Read 2048 r of
        Inl err \<Rightarrow> Err err
      | Inr (bs, r1) \<Rightarrow>
          (let data = Cipher_UnPack cipher bs in
           if length data < idType + 1 then Panic
           else
             (let addrType = data ! idType in
              if addrType AND AddrMask = typeIPv4 then
                (if length data < idIP0 + lenIPv4 then Panic
                 else Ok (JoinHostPort (ipString (slice data idIP0 (idIP0 + IPv4len)))
                            (Itoa (uint (BigEndian_Uint16
                               (slice data (idIP0 + lenIPv4 - 2) (idIP0 + lenIPv4))))), r1))
              else if addrType AND AddrMask = typeIPv6 then
                (if length data < idIP0 + lenIPv6 then Panic
                 else Ok (JoinHostPort (ipString (slice data idIP0 (idIP0 + IPv6len)))
                            (Itoa (uint (BigEndian_Uint16
                               (slice data (idIP0 + lenIPv6 - 2) (idIP0 + lenIPv6))))), r1))
              else if addrType AND AddrMask = typeDm then
                (if length data < idDmLen + 1 then Panic
                 else
                   (let reqEnd = idDm0 + unat (data ! idDmLen) + lenDmBase in
                    if length data < reqEnd then Panic
                    else Ok (JoinHostPort
                               (string_of_bytes (slice data idDm0 (idDm0 + unat (data ! idDmLen))))
                               (Itoa (uint (BigEndian_Uint16 (slice data (reqEnd - 2) reqEnd)))), r1)))
              else Err (AddrTypeNotSupported (unat (addrType AND AddrMask))))))"

section \<open>The connection handler (\<open>handleConnection\<close>)\<close>

text \<open>
  The handler's effects on the outside are recorded as a list of events, in the order
  in which the code performs them.  \<open>GoPipe\<close> stands for the relay goroutine the handler
  spawns (\<open>go ss.PipeDecrypt(conn, remote, ...)\<close>, in the older copy
  \<open>go ss.PipeThenClose(conn, remote)\<close>) and \<open>Pipe\<close> for the relay it runs itself; both
  are library code outside the sources at hand and are taken to return.
\<close>

datatype event =
    CntInc
  | CntDec
  | LogReaches
  | ConnClose
  | Dial string
  | RemoteClose
  | GoPipe
  | Pipe

text \<open>
  \<open>connCnt\<close> and \<open>nextLogConnCnt\<close> are global variables shared by all handlers.  Every
  event is recorded together with the value \<open>connCnt\<close> has at the moment it happens, so
  the record shows what an observer of the counter sees at that point.
\<close>

record counters =
  connCnt :: "64 word"
  nextLogConnCnt :: "64 word"

type_synonym trace = "(event \<times> 64 word) list"

type_synonym shared = "counters \<times> trace"

definition emit :: "event \<Rightarrow> shared \<Rightarrow> shared" where
  "emit ev se = (case se of (st, tr) \<Rightarrow> (st, tr @ [(ev, connCnt st)]))"

definition logCntDelta :: "64 word" where
  "logCntDelta = 100"

datatype exit_kind = Returned | Panicked

text \<open>
  The entry of the handler, up to the first \<open>defer\<close>: \<open>connCnt++\<close>, then the threshold
  log line with \<open>nextLogConnCnt += logCntDelta\<close>.
\<close>

definition hc_enter :: "shared \<Rightarrow> shared" where
  "hc_enter se =
     (case se of (st0, tr) \<Rightarrow>
        (let se1 = emit CntInc (st0\<lparr>connCnt := connCnt st0 + 1\<rparr>, tr) in
         if 0 \<le>s connCnt (fst se1) - nextLogConnCnt (fst se1)
         then (case emit LogReaches se1 of
                 (st, tr') \<Rightarrow> (st\<lparr>nextLogConnCnt := nextLogConnCnt st + logCntDelta\<rparr>, tr'))
         else se1))"

text \<open>
  The first deferred function: \<open>connCnt--; if !closed { conn.Close() }\<close>.  It runs on
  every exit of the handler, a panic included.
\<close>

definition deferred_conn :: "bool \<Rightarrow> shared \<Rightarrow> shared" where
  "deferred_conn closed se =
     (case se of (st, tr) \<Rightarrow>
        (let se1 = emit CntDec (st\<lparr>connCnt := connCnt st - 1\<rparr>, tr)
         in if \<not> closed then emit ConnClose se1 else se1))"

text \<open>The second deferred function: \<open>if !closed { remote.Close() }\<close>.\<close>

definition deferred_remote :: "bool \<Rightarrow> shared \<Rightarrow> shared" where
  "deferred_remote closed se = (if \<not> closed then emit RemoteClose se else se)"

text \<open>
  \<open>strings.ContainsRune(host, 0x00)\<close>: the rune U+0000 occurs in a Go string exactly
  where the byte 0 occurs.
\<close>

definition ContainsNUL :: "string \<Rightarrow> bool" where
  "ContainsNUL host = (CHR 0x00 \<in> set host)"

text \<open>
  The handler between the first \<open>defer\<close> and its exit: the request, the NUL check, the
  dial and the relay.  \<open>getRequest\<close> is the request decoder of the copy at hand,
  \<open>dial\<close> the outcome of \<open>net.Dial("tcp", host)\<close>.  The result holds the value of
  \<open>closed\<close> at the exit and whether the exit is a return or a panic.
\<close>

definition hc_body ::
  "(conn \<Rightarrow> (string \<times> conn) outcome) \<Rightarrow> (string \<Rightarrow> error + unit) \<Rightarrow> conn \<Rightarrow> shared
     \<Rightarrow> (bool \<times> exit_kind) \<times> shared" where
  "hc_body getRequest dial c se =
     (case getRequest c of
        Panic \<Rightarrow> ((False, Panicked), se)
      | Err err \<Rightarrow> ((True, Returned), se)
      | Ok (host, c') \<Rightarrow>
          if ContainsNUL host then ((True, Returned), se)
          else
            (let se1 = emit (Dial host) se in
             case dial host of
               Inl err \<Rightarrow> ((False, Returned), se1)
             | Inr remote \<Rightarrow>
                 (let se2 = emit Pipe (emit GoPipe se1)
                  in ((True, Returned), deferred_remote True se2))))"

text \<open>
  \<open>handleConnection\<close> of both copies of the server; they differ in their log lines
  only.  The result is the counters after the handler, the events it performed, and
  how it ended.
\<close>

definition handleConnection ::
  "(conn \<Rightarrow> (string \<times> conn) outcome) \<Rightarrow> (string \<Rightarrow> error + unit) \<Rightarrow> conn \<Rightarrow> counters
     \<Rightarrow> shared \<times> exit_kind" where
  "handleConnection getRequest dial c st0 =
     (case hc_body getRequest dial c (hc_enter (st0, [])) of
        ((closed, k), se) \<Rightarrow> (deferred_conn closed se, k))"

text \<open>
  Handlers run as goroutines on the shared counters.  A handler passes through its
  entry, its body and its deferred cleanup; between these, other handlers may run.
  \<open>hc_step\<close> takes one handler one part further.  A schedule names, step by step,
  the handler that moves next.
\<close>

datatype phase = AtEntry | InBody | AtDeferred bool exit_kind | Done exit_kind

fun hc_step ::
  "(conn \<Rightarrow> (string \<times> conn) outcome) \<Rightarrow> (string \<Rightarrow> error + unit) \<Rightarrow> conn \<Rightarrow> phase \<Rightarrow> shared
     \<Rightarrow> phase \<times> shared" where
  "hc_step getRequest dial c AtEntry se = (InBody, hc_enter se)"
| "hc_step getRequest dial c InBody se =
     (case hc_body getRequest dial c se of ((closed, k), se') \<Rightarrow> (AtDeferred closed k, se'))"
| "hc_step getRequest dial c (AtDeferred closed k) se = (Done k, deferred_conn closed se)"
| "hc_step getRequest dial c (Done k) se = (Done k, se)"

type_synonym handler = "conn \<times> phase"

definition step_handler ::
  "(conn \<Rightarrow> (string \<times> conn) outcome) \<Rightarrow> (string \<Rightarrow> error + unit) \<Rightarrow> nat
     \<Rightarrow> handler list \<times> shared \<Rightarrow> handler list \<times> shared" where
  "step_handler getRequest dial i hse =
     (case hse of (hs, se) \<Rightarrow>
        if i < length hs then
          (case hs ! i of (c, ph) \<Rightarrow>
             (case hc_step getRequest dial c ph se of (ph', se') \<Rightarrow> (hs[i := (c, ph')], se')))
        else (hs, se))"

definition run_schedule ::
  "(conn \<Rightarrow> (string \<times> conn) outcome) \<Rightarrow> (string \<Rightarrow> error + unit) \<Rightarrow> nat list
     \<Rightarrow> handler list \<times> shared \<Rightarrow> handler list \<times> shared" where
  "run_schedule getRequest dial sched hse = fold (step_handler getRequest dial) sched hse"

text \<open>A handler is in flight from the end of its entry to the end of its cleanup.\<close>

fun in_flight_phase :: "phase \<Rightarrow> bool" where
  "in_flight_phase AtEntry = False"
| "in_flight_phase InBody = True"
| "in_flight_phase (AtDeferred closed k) = True"
| "in_flight_phase (Done k) = False"

definition in_flight :: "handler list \<Rightarrow> nat" where
  "in_flight hs = length (filter (\<lambda>h. in_flight_phase (snd h)) hs)"

definition accepted :: "conn list \<Rightarrow> handler list" where
  "accepted cs = map (\<lambda>c. (c, AtEntry)) cs"

section \<open>The password manager and configuration reload\<close>

text \<open>
  Listening sockets are numbered; \<open>socks\<close> lists the open ones with the port each is
  bound to.  \<open>net.Listen\<close> on a port fails when an open socket is already bound to it
  and otherwise opens the socket numbered \<open>next_sock\<close>.  \<open>oplog\<close> records the socket
  closes and the server loops started, in order.  A function that can end the process
  (\<open>os.Exit\<close>, \<open>log.Fatal\<close>) returns \<open>None\<close> when it does.
\<close>

record PortListener =
  password :: string
  listener :: nat

record Config =
  ServerPort :: int
  Password :: string
  PortPassword :: "(string \<times> string) list"

datatype op = Closed nat | Started string string

record server =
  portListener :: "string \<rightharpoonup> PortListener"
  udpListener :: "string \<rightharpoonup> PortListener"
  socks :: "(nat \<times> string) list"
  next_sock :: nat
  oplog :: "op list"
  udp :: bool
  config :: Config

definition Close :: "nat \<Rightarrow> server \<Rightarrow> server" where
  "Close l s = s\<lparr>socks := filter (\<lambda>(i, p). i \<noteq> l) (socks s), oplog := oplog s @ [Closed l]\<rparr>"

definition pm_add :: "string \<Rightarrow> string \<Rightarrow> nat \<Rightarrow> server \<Rightarrow> server" where
  "pm_add port passwd ln s =
     s\<lparr>portListener := (portListener s)(port \<mapsto> \<lparr>password = passwd, listener = ln\<rparr>)\<rparr>"

definition pm_get :: "string \<Rightarrow> server \<Rightarrow> PortListener option" where
  "pm_get port s = portListener s port"

definition pm_getUDP :: "string \<Rightarrow> server \<Rightarrow> PortListener option" where
  "pm_getUDP port s = udpListener s port"

definition pm_del :: "string \<Rightarrow> server \<Rightarrow> server" where
  "pm_del port s =
     (case pm_get port s of
        None \<Rightarrow> s
      | Some pl \<Rightarrow>
          (if udp s then
             (case pm_getUDP port s of
                None \<Rightarrow> s
              | Some upl \<Rightarrow>
                  (let s1 = Close (listener pl) (Close (listener upl) s)
                   in s1\<lparr>portListener := (portListener s1)(port := None),
                         udpListener := (udpListener s1)(port := None)\<rparr>))
           else
             (let s1 = Close (listener pl) s
              in s1\<lparr>portListener := (portListener s1)(port := None)\<rparr>)))"

text \<open>
  \<open>run\<close> up to its accept loop: listen on the port (\<open>os.Exit(1)\<close> on failure) and
  register the listener.  The accept loop itself serves until its socket is closed.
  \<open>go run(port, password)\<close> is modelled by running this start-up at the point of the
  \<open>go\<close> statement.  Of the ways \<open>net.Listen\<close> can fail, the model has the one that
  depends on the server's own state, a port that is already bound; a port string that
  the operating system refuses for other reasons is outside the model.
\<close>

definition run :: "string \<Rightarrow> string \<Rightarrow> server \<Rightarrow> server option" where
  "run port passwd s =
     (if port \<in> snd ` set (socks s) then None
      else Some (pm_add port passwd (next_sock s)
                   (s\<lparr>socks := socks s @ [(next_sock s, port)],
                      next_sock := next_sock s + 1,
                      oplog := oplog s @ [Started port passwd]\<rparr>)))"

definition updatePortPasswd :: "string \<Rightarrow> string \<Rightarrow> server \<Rightarrow> server option" where
  "updatePortPasswd port passwd s =
     (case pm_get port s of
        None \<Rightarrow> run port passwd s
      | Some pl \<Rightarrow>
          if password pl = passwd then Some s
          else run port passwd (Close (listener pl) s))"

definition enoughOptions :: "Config \<Rightarrow> bool" where
  "enoughOptions cfg = (ServerPort cfg \<noteq> 0 \<and> Password cfg \<noteq> [])"

text \<open>
  \<open>unifyPortPassword\<close>.  The older copy reports through \<open>log.Fatal\<close>, which ends the
  process; the newer one through \<open>ss.Logger.Fatal\<close>, whose code is not at hand.
  \<open>fatalExits\<close> says whether that call ends the process.
\<close>

definition unifyPortPassword :: "bool \<Rightarrow> Config \<Rightarrow> (error + Config) option" where
  "unifyPortPassword fatalExits cfg =
     (if length (PortPassword cfg) = 0 then
        (if \<not> enoughOptions cfg then
           (if fatalExits then None else Some (Inl NotEnoughOptions))
         else Some (Inr (cfg\<lparr>PortPassword := [(Itoa (ServerPort cfg), Password cfg)]\<rparr>)))
      else
        (if (Password cfg \<noteq> [] \<or> ServerPort cfg \<noteq> 0) \<and> fatalExits then None
         else Some (Inr cfg)))"

text \<open>
  The first loop of \<open>updatePasswd\<close>: every port of the new configuration goes through
  \<open>updatePortPasswd\<close> and is deleted from the old configuration's map, here \<open>old\<close>.
  A Go map is ranged over in no fixed order; the list gives the order of one run.
\<close>

fun update_ports ::
  "(string \<times> string) list \<Rightarrow> (string \<times> string) list \<Rightarrow> server
     \<Rightarrow> ((string \<times> string) list \<times> server) option" where
  "update_ports [] old s = Some (old, s)"
| "update_ports ((port, passwd) # rest) old s =
     (case updatePortPasswd port passwd s of
        None \<Rightarrow> None
      | Some s' \<Rightarrow> update_ports rest (filter (\<lambda>(k, v). k \<noteq> port) old) s')"

text \<open>The second loop: every port still left in the old map is deleted.\<close>

fun del_ports :: "(string \<times> string) list \<Rightarrow> server \<Rightarrow> server" where
  "del_ports [] s = s"
| "del_ports ((port, passwd) # rest) s = del_ports rest (pm_del port s)"

text \<open>\<open>updatePasswd\<close>; \<open>parsed\<close> is what \<open>ss.ParseConfig(configFile)\<close> returns.\<close>

definition updatePasswd :: "bool \<Rightarrow> error + Config \<Rightarrow> server \<Rightarrow> server option" where
  "updatePasswd fatalExits parsed s =
     (case parsed of
        Inl err \<Rightarrow> Some s
      | Inr newconfig \<Rightarrow>
          (let oldconfig = config s;
               s1 = s\<lparr>config := newconfig\<rparr>
           in case unifyPortPassword fatalExits newconfig of
                None \<Rightarrow> None
              | Some (Inl err) \<Rightarrow> Some s1
              | Some (Inr cfg) \<Rightarrow>
                  (let s2 = s1\<lparr>config := cfg\<rparr> in
                   case update_ports (PortPassword cfg) (PortPassword oldconfig) s2 of
                     None \<Rightarrow> None
                   | Some (old, s3) \<Rightarrow> Some (del_ports old s3))))"

section \<open>AEAD packing and unpacking (\<open>ConnAead.Pack\<close>, \<open>ConnAead.UnPack\<close>)\<close>

text \<open>
  The AEAD primitive behind \<open>CipherAead\<close> is a parameter: its tag size \<open>Overhead\<close>,
  sealing and opening under a nonce.  Both may fail (\<open>None\<close>).
\<close>

record Aead =
  Overhead :: nat
  Seal :: "nat \<Rightarrow> byte list \<Rightarrow> byte list option"
  Open :: "nat \<Rightarrow> byte list \<Rightarrow> byte list option"

text \<open>
  Modelled from the spec: \<open>CipherAead.Encrypt(dst, src)\<close> and
  \<open>CipherAead.Decrypt(dst, src)\<close> are not in the sources at hand.  Following section 4.2
  of the specification, each call seals (opens) \<open>src\<close> as one independent AEAD message
  under the current nonce, writes the result to the start of \<open>dst\<close> and consumes one
  nonce increment; a failure of the primitive is returned as the error.
\<close>

definition Encrypt :: "Aead \<Rightarrow> nat \<Rightarrow> byte list \<Rightarrow> byte list \<Rightarrow> error + (byte list \<times> nat)" where
  "Encrypt a n dst src =
     (case Seal a n src of
        None \<Rightarrow> Inl CipherError
      | Some ct \<Rightarrow> Inr (copy_into dst 0 ct, n + 1))"

definition Decrypt :: "Aead \<Rightarrow> nat \<Rightarrow> byte list \<Rightarrow> byte list \<Rightarrow> error + (byte list \<times> nat)" where
  "Decrypt a n dst src =
     (case Open a n src of
        None \<Rightarrow> Inl CipherError
      | Some pt \<Rightarrow> Inr (copy_into dst 0 pt, n + 1))"

text \<open>
  A \<open>ConnAead\<close>: the bytes written to its \<open>dataBuffer\<close>, the connection its \<open>reader\<close>
  reads from, and the nonce counter of its cipher instance.
\<close>

record ConnAead =
  dataBuffer :: "byte list"
  reader :: conn
  nonce :: nat

text \<open>
  \<open>chunk_num := math.Ceil(float64(packet_len) / float64(mask))\<close>.  Lengths are far
  below \<open>2^53\<close>, where the floating-point quotient is exact enough for its ceiling to
  be the ceiling of the integer quotient.
\<close>

definition chunk_num :: "nat \<Rightarrow> nat" where
  "chunk_num packet_len = (packet_len + (nat getPayloadSizeMask - 1)) div nat getPayloadSizeMask"

text \<open>
  The loop of \<open>Pack\<close>, by its counter.  \<open>payload_buf\<close> is the part of \<open>packet_buf\<close>
  behind the sealed header, so what is encrypted into it lands in \<open>packet_buf\<close>.
  The payload of every chunk is \<open>packet_data[:payload_len]\<close>.
\<close>

fun Pack_loop :: "Aead \<Rightarrow> nat \<Rightarrow> nat \<Rightarrow> byte list \<Rightarrow> ConnAead \<Rightarrow> error option \<times> ConnAead" where
  "Pack_loop a 0 packet_len packet_data c = (None, c)"
| "Pack_loop a (Suc chunk_counter) packet_len packet_data c =
     (let payload_len =
            (if int packet_len > getPayloadSizeMask then nat getPayloadSizeMask else packet_len);
          packet_buf0 = replicate (2 + Overhead a + payload_len + Overhead a) (0 :: byte);
          payload_lo = 2 + Overhead a;
          payload_hi = 2 + Overhead a + payload_len + Overhead a;
          packet_buf1 = packet_buf0[0 := word_of_nat (drop_bit 8 payload_len),
                                    1 := word_of_nat payload_len]
      in case Encrypt a (nonce c) packet_buf1 (slice packet_buf1 0 2) of
           Inl err \<Rightarrow> (Some err, c)
         | Inr (packet_buf2, n1) \<Rightarrow>
             (let payload = take payload_len packet_data in
              case Encrypt a n1 (slice packet_buf2 payload_lo payload_hi) payload of
                Inl err \<Rightarrow> (Some err, c\<lparr>nonce := n1\<rparr>)
              | Inr (payload_buf, n2) \<Rightarrow>
                  (let packet_buf3 = copy_into packet_buf2 payload_lo payload_buf
                   in Pack_loop a chunk_counter (packet_len - payload_len) packet_data
                        (c\<lparr>dataBuffer := dataBuffer c @ packet_buf3, nonce := n2\<rparr>))))"

definition Pack :: "Aead \<Rightarrow> byte list \<Rightarrow> ConnAead \<Rightarrow> error option \<times> ConnAead" where
  "Pack a packet_data c =
     Pack_loop a (chunk_num (length packet_data)) (length packet_data) packet_data c"

text \<open>
  \<open>UnPack\<close>.  When \<open>io.ReadFull\<close> fails, the connection has run out before the buffer
  was full: everything it still held has been consumed, and the reader is left empty.
\<close>

definition UnPack :: "Aead \<Rightarrow> ConnAead \<Rightarrow> error option \<times> ConnAead" where
  "UnPack a c =
     (case ReadFull (2 + Overhead a) (reader c) of
        Inl err \<Rightarrow> (Some err, c\<lparr>reader := []\<rparr>)
      | Inr (header, r1) \<Rightarrow>
          (case Decrypt a (nonce c) header header of
             Inl err \<Rightarrow> (Some err, c\<lparr>reader := r1\<rparr>)
           | Inr (header', n1) \<Rightarrow>
               (let payload_size = nat (payload_size_of (header' ! 0) (header' ! 1)) in
                case ReadFull (payload_size + Overhead a) r1 of
                  Inl err \<Rightarrow> (Some err, c\<lparr>reader := [], nonce := n1\<rparr>)
                | Inr (payload, r2) \<Rightarrow>
                    (case Decrypt a n1 payload payload of
                       Inl err \<Rightarrow> (Some err, c\<lparr>reader := r2, nonce := n1\<rparr>)
                     | Inr (payload', n2) \<Rightarrow>
                         (None, c\<lparr>dataBuffer := dataBuffer c @ take payload_size payload',
                                  reader := r2, nonce := n2\<rparr>)))))"

text \<open>\<open>UnPack\<close> called \<open>k\<close> times in a row, stopping at the first error.\<close>

fun UnPack_times :: "Aead \<Rightarrow> nat \<Rightarrow> ConnAead \<Rightarrow> error option \<times> ConnAead" where
  "UnPack_times a 0 c = (None, c)"
| "UnPack_times a (Suc k) c =
     (case UnPack a c of
        (Some err, c') \<Rightarrow> (Some err, c')
      | (None, c') \<Rightarrow> UnPack_times a k c')"

text \<open>
  Packing on a fresh sending connection, delivering its buffer to a fresh receiving
  connection cut into blocks of at most \<open>blk\<close> bytes (\<open>blk = 0\<close>: one block), and
  unpacking once per chunk.  The result is the receiver's accumulated output.
\<close>

function blocks :: "nat \<Rightarrow> byte list \<Rightarrow> conn" where
  "blocks blk bs =
     (if blk = 0 \<or> length bs \<le> blk then [bs]
      else take blk bs # blocks blk (drop blk bs))"
  by pat_completeness auto
termination
  by (relation "measure (\<lambda>(blk, bs). length bs)") auto

definition fresh_conn :: "conn \<Rightarrow> ConnAead" where
  "fresh_conn r = \<lparr>dataBuffer = [], reader = r, nonce = 0\<rparr>"

definition pack_then_unpack :: "Aead \<Rightarrow> nat \<Rightarrow> byte list \<Rightarrow> error + byte list" where
  "pack_then_unpack a blk packet_data =
     (case Pack a packet_data (fresh_conn []) of
        (Some err, s) \<Rightarrow> Inl err
      | (None, s) \<Rightarrow>
          (case UnPack_times a (chunk_num (length packet_data))
                  (fresh_conn (blocks blk (dataBuffer s))) of
             (Some err, r) \<Rightarrow> Inl err
           | (None, r) \<Rightarrow> Inr (dataBuffer r)))"

text \<open>
  A small AEAD used to run the framing on concrete inputs: it masks every byte with
  the low byte of the nonce and appends a four-byte tag that depends on the nonce.
\<close>

definition xor_aead :: Aead where
  "xor_aead =
     \<lparr>Overhead = 4,
      Seal = (\<lambda>n pt. Some (map (\<lambda>b. b XOR word_of_nat n) pt @ replicate 4 (word_of_nat n + 1))),
      Open = (\<lambda>n ct.
        if 4 \<le> length ct \<and> drop (length ct - 4) ct = replicate 4 (word_of_nat n + 1)
        then Some (map (\<lambda>b. b XOR word_of_nat n) (take (length ct - 4) ct))
        else None)\<rparr>"

section \<open>Notions used to state the properties\<close>

text \<open>The parts of what \<open>handleConnection\<close> returns.\<close>

definition counters_of :: "shared \<times> exit_kind \<Rightarrow> counters" where
  "counters_of res = fst (fst res)"

definition trace_of :: "shared \<times> exit_kind \<Rightarrow> trace" where
  "trace_of res = snd (fst res)"

definition events_of :: "shared \<times> exit_kind \<Rightarrow> event list" where
  "events_of res = map fst (trace_of res)"

text \<open>The ports on which a socket is listening.\<close>

definition listening_ports :: "server \<Rightarrow> string list" where
  "listening_ports s = map snd (socks s)"

text \<open>
  The registry invariant the server maintains: every open listening socket is the
  listener registered for its port.
\<close>

definition socks_registered :: "server \<Rightarrow> bool" where
  "socks_registered s =
     list_all (\<lambda>(i, p). case portListener s p of None \<Rightarrow> False | Some pl \<Rightarrow> listener pl = i)
       (socks s)"

text \<open>
  A server that was started with the single port 8388 (the state \<open>run\<close> leaves behind
  at start-up), with the UDP flag \<open>u\<close>, and a new configuration that lists port 8389
  only.
\<close>

definition server_8388 :: "bool \<Rightarrow> server" where
  "server_8388 u =
     \<lparr>portListener = [''8388'' \<mapsto> \<lparr>password = ''pw'', listener = 0\<rparr>],
      udpListener = Map.empty, socks = [(0, ''8388'')], next_sock = 1,
      oplog = [Started ''8388'' ''pw''], udp = u,
      config = \<lparr>ServerPort = 0, Password = [], PortPassword = [(''8388'', ''pw'')]\<rparr>\<rparr>"

definition config_8389 :: Config where
  "config_8389 = \<lparr>ServerPort = 0, Password = [], PortPassword = [(''8389'', ''pw'')]\<rparr>"

text \<open>
  An AEAD primitive is well behaved when sealing never fails, adds exactly the tag,
  and opening a sealed message under the same nonce returns the message.
\<close>

definition aead_ok :: "Aead \<Rightarrow> bool" where
  "aead_ok a =
     (\<forall>n pt. \<exists>ct. Seal a n pt = Some ct \<and> length ct = length pt + Overhead a \<and>
               Open a n ct = Some pt)"

definition sealed :: "Aead \<Rightarrow> nat \<Rightarrow> byte list \<Rightarrow> byte list" where
  "sealed a n pt = the (Seal a n pt)"

text \<open>The wire form of one chunk, and of a sequence of chunks, from nonce \<open>n\<close> on.\<close>

definition header_of :: "nat \<Rightarrow> byte list" where
  "header_of payload_len = [word_of_nat (drop_bit 8 payload_len), word_of_nat payload_len]"

definition frame :: "Aead \<Rightarrow> nat \<Rightarrow> byte list \<Rightarrow> byte list" where
  "frame a n p = sealed a n (header_of (length p)) @ sealed a (n + 1) p"

fun frames :: "Aead \<Rightarrow> nat \<Rightarrow> byte list list \<Rightarrow> byte list" where
  "frames a n [] = []"
| "frames a n (p # ps) = frame a n p @ frames a (n + 2) ps"

text \<open>The payloads that the loop of \<open>Pack\<close> puts into its chunks, in order.\<close>

fun payloads :: "nat \<Rightarrow> nat \<Rightarrow> byte list \<Rightarrow> byte list list" where
  "payloads 0 packet_len packet_data = []"
| "payloads (Suc k) packet_len packet_data =
     take (min packet_len (nat getPayloadSizeMask)) packet_data #
     payloads k (packet_len - min packet_len (nat getPayloadSizeMask)) packet_data"

section \<open>The payload size read by \<open>UnPack\<close>\<close>

lemma mask_no_effect: "uint (h1 :: byte) AND getPayloadSizeMask = uint h1"
proof -
  have m: "getPayloadSizeMask = mask 14"
    by (simp add: getPayloadSizeMask_def mask_eq_exp_minus_1)
  have "uint h1 < 2 ^ 14" using uint_bounded[of h1] by simp
  then have "take_bit 14 (uint h1) = uint h1"
    by (simp add: take_bit_int_eq_self)
  then show ?thesis unfolding m by (simp add: take_bit_eq_mask)
qed

text \<open>
  The mask reaches the low header byte only, where it changes nothing: the size is
  the plain 16-bit big-endian value of the header.
\<close>

lemma payload_size_of_unmasked: "payload_size_of h0 h1 = 256 * uint h0 + uint h1"
  by (simp add: payload_size_of_def mask_no_effect push_bit_eq_mult)

text \<open>
  Claim C2 says that the payload size \<open>UnPack\<close> uses is \<open>((h0 << 8) + h1) & 0x3FFF\<close> and
  so at most \<open>0x3FFF\<close>.  For the decrypted header bytes \<open>0x40, 0x00\<close> the masked value
  is 0, but the size the code computes is 16384, which is above the mask.
\<close>

theorem UnPack_payload_size_exceeds_mask:
  "payload_size_of 0x40 0x00 = 16384 \<and>
   (push_bit 8 (uint (0x40 :: byte)) + uint (0x00 :: byte)) AND getPayloadSizeMask = 0 \<and>
   \<not> payload_size_of 0x40 0x00 \<le> getPayloadSizeMask"
  by (simp add: payload_size_of_def getPayloadSizeMask_def)

section \<open>\<open>AESCTR.new\<close>\<close>

text \<open>
  Claim C10, as stated, makes the result depend on the key length alone.  With a key
  of 16 bytes and an empty IV the call does not return: \<open>cipher.NewCTR\<close> panics.
\<close>

theorem AESCTR_new_short_iv_panics:
  "length (replicate 16 (0 :: byte)) = 16 \<and> AESCTR_new (replicate 16 0) [] = Panic"
  by (simp add: AESCTR_new_def aes_NewCipher_def cipher_NewCTR_def aes_BlockSize_def)

text \<open>
  Claim C10, amended: given an IV of the AES block size, \<open>AESCTR.new\<close> returns a
  non-nil stream, a nil AEAD and a nil error exactly when the key has 16, 24 or 32
  bytes; for every other key length it returns a nil stream, a nil AEAD and a non-nil
  error, whatever the IV; with a key of 16, 24 or 32 bytes and an IV of another
  length it panics.
\<close>

theorem AESCTR_new_by_key_length:
  "(length iv = aes_BlockSize \<longrightarrow>
      ((\<exists>s. AESCTR_new key iv = Ok (Some s, None, None)) \<longleftrightarrow> length key \<in> {16, 24, 32})) \<and>
   (length key \<notin> {16, 24, 32} \<longrightarrow> (\<exists>e. AESCTR_new key iv = Ok (None, None, Some e))) \<and>
   (length key \<in> {16, 24, 32} \<and> length iv \<noteq> aes_BlockSize \<longrightarrow> AESCTR_new key iv = Panic)"
  by (auto simp add: AESCTR_new_def aes_NewCipher_def cipher_NewCTR_def aes_BlockSize_def)

text \<open>
  The amended claim C10 at concrete inputs: a 32-byte key with a 16-byte IV gives a
  stream, a 5-byte key gives an error, a 24-byte key with a 3-byte IV panics.
\<close>

theorem AESCTR_new_by_key_length_witness:
  "(\<exists>s. AESCTR_new (replicate 32 0) (replicate 16 0) = Ok (Some s, None, None)) \<and>
   (\<exists>e. AESCTR_new (replicate 5 0) (replicate 16 0) = Ok (None, None, Some e)) \<and>
   AESCTR_new (replicate 24 0) (replicate 3 0) = Panic"
  using AESCTR_new_by_key_length[of "replicate 16 0" "replicate 32 0"]
    AESCTR_new_by_key_length[of "replicate 16 0" "replicate 5 0"]
    AESCTR_new_by_key_length[of "replicate 3 0" "replicate 24 0"]
  by (simp add: aes_BlockSize_def)

section \<open>The connection handler\<close>

text \<open>
  What each part of the handler does to the shared counter and to the record of
  events: the entry adds one and records \<open>CntInc\<close> with the new value; the body leaves
  the counter alone and records each of its events with the value it finds; the
  deferred cleanup subtracts one and records \<open>CntDec\<close> with the new value, before it
  closes the connection.
\<close>

lemma fst_emit [simp]: "fst (emit ev se) = fst se"
  by (simp add: emit_def split: prod.splits)

lemma snd_emit [simp]: "snd (emit ev se) = snd se @ [(ev, connCnt (fst se))]"
  by (simp add: emit_def split: prod.splits)

lemma hc_enter_connCnt: "connCnt (fst (hc_enter se)) = connCnt (fst se) + 1"
  by (cases se) (simp add: hc_enter_def Let_def emit_def split: prod.splits)

lemma hc_body_connCnt: "connCnt (fst (snd (hc_body getRequest dial c se))) = connCnt (fst se)"
  by (simp add: hc_body_def deferred_remote_def Let_def split: outcome.splits sum.splits prod.splits)

lemma deferred_conn_connCnt: "connCnt (fst (deferred_conn closed se)) = connCnt (fst se) - 1"
  by (cases se) (simp add: deferred_conn_def Let_def)

lemma hc_enter_trace:
  "\<exists>logs. snd (hc_enter (st, tr)) =
            tr @ (CntInc, connCnt st + 1) # map (\<lambda>e. (e, connCnt st + 1)) logs \<and>
          (logs = [] \<or> logs = [LogReaches])"
proof (cases "0 \<le>s connCnt st + 1 - nextLogConnCnt st")
  case True
  then show ?thesis
    by (intro exI[of _ "[LogReaches]"]) (simp add: hc_enter_def Let_def emit_def)
next
  case False
  then show ?thesis
    by (intro exI[of _ "[]"]) (simp add: hc_enter_def Let_def emit_def)
qed

lemma hc_body_trace:
  "\<exists>evs. snd (snd (hc_body getRequest dial c se)) = snd se @ map (\<lambda>e. (e, connCnt (fst se))) evs \<and>
         CntInc \<notin> set evs \<and> CntDec \<notin> set evs \<and> ConnClose \<notin> set evs"
proof (cases "getRequest c")
  case (Ok p)
  obtain host c' where p: "p = (host, c')" by (cases p)
  show ?thesis
  proof (cases "ContainsNUL host")
    case True
    with Ok p show ?thesis by (simp add: hc_body_def)
  next
    case False
    show ?thesis
    proof (cases "dial host")
      case (Inl e)
      with Ok p False show ?thesis
        by (intro exI[of _ "[Dial host]"]) (simp add: hc_body_def Let_def)
    next
      case (Inr r)
      with Ok p False show ?thesis
        by (intro exI[of _ "[Dial host, GoPipe, Pipe]"])
           (simp add: hc_body_def Let_def deferred_remote_def)
    qed
  qed
qed (simp_all add: hc_body_def)

lemma deferred_conn_trace:
  "snd (deferred_conn closed (st, tr)) =
     tr @ (CntDec, connCnt st - 1) # (if closed then [] else [(ConnClose, connCnt st - 1)])"
  by (simp add: deferred_conn_def Let_def emit_def)

text \<open>
  One handler run on its own: the record starts with the increment, every event of
  the body sees the incremented counter, the decrement comes after the body, and
  only the close of the client connection can follow it.
\<close>

lemma handleConnection_trace:
  "(\<exists>logs body tail.
      trace_of (handleConnection getRequest dial c st) =
        (CntInc, connCnt st + 1) # map (\<lambda>e. (e, connCnt st + 1)) (logs @ body) @
        (CntDec, connCnt st) # tail \<and>
      (logs = [] \<or> logs = [LogReaches]) \<and>
      CntInc \<notin> set body \<and> CntDec \<notin> set body \<and> ConnClose \<notin> set body \<and>
      (tail = [] \<or> tail = [(ConnClose, connCnt st)])) \<and>
   connCnt (counters_of (handleConnection getRequest dial c st)) = connCnt st"
proof -
  obtain st1 tr1 where e: "hc_enter (st, []) = (st1, tr1)" by (cases "hc_enter (st, [])")
  have c1: "connCnt st1 = connCnt st + 1" using hc_enter_connCnt[of "(st, [])"] e by simp
  obtain logs where l: "tr1 = (CntInc, connCnt st + 1) # map (\<lambda>e. (e, connCnt st + 1)) logs"
      "logs = [] \<or> logs = [LogReaches]"
    using hc_enter_trace[of st "[]"] e by auto
  obtain closed k st2 tr2 where b: "hc_body getRequest dial c (st1, tr1) = ((closed, k), (st2, tr2))"
    by (cases "hc_body getRequest dial c (st1, tr1)") auto
  have c2: "connCnt st2 = connCnt st + 1" using hc_body_connCnt[of getRequest dial c "(st1, tr1)"] b c1 by simp
  obtain body where bd: "tr2 = tr1 @ map (\<lambda>e. (e, connCnt st + 1)) body"
      "CntInc \<notin> set body" "CntDec \<notin> set body" "ConnClose \<notin> set body"
    using hc_body_trace[of getRequest dial c "(st1, tr1)"] b c1 by auto
  have h: "handleConnection getRequest dial c st = (deferred_conn closed (st2, tr2), k)"
    by (simp add: handleConnection_def e b)
  have t: "trace_of (handleConnection getRequest dial c st) =
      (CntInc, connCnt st + 1) # map (\<lambda>e. (e, connCnt st + 1)) (logs @ body) @
        (CntDec, connCnt st) # (if closed then [] else [(ConnClose, connCnt st)])"
    unfolding h trace_of_def using deferred_conn_trace[of closed st2 tr2] bd l c2 by simp
  have f: "connCnt (counters_of (handleConnection getRequest dial c st)) = connCnt st"
    unfolding h counters_of_def using deferred_conn_connCnt[of closed "(st2, tr2)"] c2 by simp
  show ?thesis
    using t l(2) bd(2-4) f
    by (intro conjI exI[of _ logs] exI[of _ body]
          exI[of _ "if closed then [] else [(ConnClose, connCnt st)]"]) auto
qed

text \<open>
  Handlers interleaved in any order on the shared counter: every step keeps the
  difference between the counter and the number of handlers in flight.
\<close>

lemma filter_length_update:
  "i < length xs \<Longrightarrow>
     length (filter P (xs[i := y])) + (if P (xs ! i) then 1 else 0) =
     length (filter P xs) + (if P y then 1 else 0)"
proof (induction xs arbitrary: i)
  case Nil
  then show ?case by simp
next
  case (Cons x xs)
  show ?case
  proof (cases i)
    case 0
    then show ?thesis by simp
  next
    case (Suc j)
    with Cons.prems have "j < length xs" by simp
    from Cons.IH[OF this] Suc show ?thesis by simp
  qed
qed

lemma hc_step_connCnt:
  "connCnt (fst (snd (hc_step getRequest dial c ph se))) +
     (if in_flight_phase ph then 1 else 0) =
   connCnt (fst se) + (if in_flight_phase (fst (hc_step getRequest dial c ph se)) then 1 else 0)"
proof (cases ph)
  case AtEntry
  then show ?thesis by (simp add: hc_enter_connCnt)
next
  case InBody
  obtain closed k se' where b: "hc_body getRequest dial c se = ((closed, k), se')"
    by (cases "hc_body getRequest dial c se") auto
  with InBody hc_body_connCnt[of getRequest dial c se] show ?thesis by simp
next
  case (AtDeferred closed k)
  then show ?thesis by (simp add: deferred_conn_connCnt)
next
  case (Done k)
  then show ?thesis by simp
qed

lemma step_handler_connCnt:
  "connCnt (fst (snd (step_handler getRequest dial i (hs, se)))) + of_nat (in_flight hs) =
   connCnt (fst se) + of_nat (in_flight (fst (step_handler getRequest dial i (hs, se))))"
proof (cases "i < length hs")
  case False
  then show ?thesis by (simp add: step_handler_def)
next
  case True
  obtain c ph where h: "hs ! i = (c, ph)" by (cases "hs ! i")
  obtain ph' se' where s: "hc_step getRequest dial c ph se = (ph', se')"
    by (cases "hc_step getRequest dial c ph se")
  have r: "step_handler getRequest dial i (hs, se) = (hs[i := (c, ph')], se')"
    using True h s by (simp add: step_handler_def)
  from filter_length_update[OF True, of "\<lambda>h. in_flight_phase (snd h)" "(c, ph')"] h
  have n: "in_flight (hs[i := (c, ph')]) + (if in_flight_phase ph then 1 else 0) =
           in_flight hs + (if in_flight_phase ph' then 1 else 0)"
    by (simp add: in_flight_def)
  from hc_step_connCnt[of getRequest dial c ph se] s
  have w: "connCnt (fst se') + (if in_flight_phase ph then 1 else 0) =
           connCnt (fst se) + (if in_flight_phase ph' then 1 else 0)" by simp
  have n': "(of_nat (in_flight (hs[i := (c, ph')])) :: 64 word) + (if in_flight_phase ph then 1 else 0) =
           of_nat (in_flight hs) + (if in_flight_phase ph' then 1 else 0)"
    using arg_cong[OF n, of "of_nat :: nat \<Rightarrow> 64 word"] by (simp split: if_splits)
  let ?a = "(if in_flight_phase ph then 1 else 0) :: 64 word"
  let ?b = "(if in_flight_phase ph' then 1 else 0) :: 64 word"
  have "(connCnt (fst se') + ?a) + (of_nat (in_flight hs) + ?b) =
        (connCnt (fst se) + ?b) + (of_nat (in_flight (hs[i := (c, ph')])) + ?a)"
    unfolding w n' ..
  then have "(connCnt (fst se') + of_nat (in_flight hs)) + (?a + ?b) =
        (connCnt (fst se) + of_nat (in_flight (hs[i := (c, ph')]))) + (?a + ?b)"
    by (simp only: ac_simps)
  then have "connCnt (fst se') + of_nat (in_flight hs) =
        connCnt (fst se) + of_nat (in_flight (hs[i := (c, ph')]))"
    by (simp only: add_right_cancel)
  then show ?thesis
    unfolding r by simp
qed

lemma run_schedule_connCnt:
  "connCnt (fst (snd (run_schedule getRequest dial sched hse))) + of_nat (in_flight (fst hse)) =
   connCnt (fst (snd hse)) + of_nat (in_flight (fst (run_schedule getRequest dial sched hse)))"
proof (induction sched arbitrary: hse)
  case Nil
  then show ?case by (simp add: run_schedule_def)
next
  case (Cons i sched)
  let ?n = "step_handler getRequest dial i hse"
  obtain hs se where hse: "hse = (hs, se)" by (cases hse)
  have r: "run_schedule getRequest dial (i # sched) hse = run_schedule getRequest dial sched ?n"
    by (simp add: run_schedule_def)
  have s: "connCnt (fst (snd ?n)) + of_nat (in_flight (fst hse)) =
           connCnt (fst (snd hse)) + of_nat (in_flight (fst ?n))"
    using step_handler_connCnt[of getRequest dial i hs se] by (simp add: hse)
  let ?r = "run_schedule getRequest dial sched ?n"
  have "(connCnt (fst (snd ?r)) + of_nat (in_flight (fst ?n))) +
          (connCnt (fst (snd ?n)) + of_nat (in_flight (fst hse))) =
        (connCnt (fst (snd ?n)) + of_nat (in_flight (fst ?r))) +
          (connCnt (fst (snd hse)) + of_nat (in_flight (fst ?n)))"
    unfolding Cons.IH[of ?n] s ..
  then have "(connCnt (fst (snd ?r)) + of_nat (in_flight (fst hse))) +
          (connCnt (fst (snd ?n)) + of_nat (in_flight (fst ?n))) =
        (connCnt (fst (snd hse)) + of_nat (in_flight (fst ?r))) +
          (connCnt (fst (snd ?n)) + of_nat (in_flight (fst ?n)))"
    by (simp only: ac_simps)
  then show ?case
    unfolding r by (simp only: add_right_cancel)
qed

lemma in_flight_accepted [simp]: "in_flight (accepted cs) = 0"
  by (simp add: in_flight_def accepted_def filter_empty_conv)

lemma handleConnection_as_steps:
  "run_schedule getRequest dial [0, 0, 0] (accepted [c], (st, [])) =
     ([(c, Done (snd (handleConnection getRequest dial c st)))],
      fst (handleConnection getRequest dial c st))"
  by (simp add: run_schedule_def step_handler_def accepted_def handleConnection_def
        split: prod.splits)

text \<open>
  Two handlers interleaved, starting with the counter at 7; the second handler
  enters while the first is in flight and sees 9.
\<close>

lemma two_handlers_interleaved:
  "run_schedule (getRequest_full ipString) (\<lambda>h. Inl DialError) [0, 1, 1, 0, 0, 1]
     (accepted [[], [[5]]], (\<lparr>connCnt = 7, nextLogConnCnt = 100\<rparr>, [])) =
   ([([], Done Returned), ([[5]], Done Returned)],
    (\<lparr>connCnt = 7, nextLogConnCnt = 100\<rparr>,
     [(CntInc, 8), (CntInc, 9), (CntDec, 8), (CntDec, 7)]))"
  by code_simp

text \<open>
  Claim C9: every run of \<open>handleConnection\<close> increments \<open>connCnt\<close> exactly once, on
  entry, and decrements it exactly once, in the deferred cleanup, on every exit path
  (failed request, NUL host, failed dial, completed relay, and a panic of the decoder),
  so a completed handler leaves \<open>connCnt\<close> at the value it had before.  In the
  theorem: (1) the record of one run is the increment, seen as the old value plus
  one, then the events of the entry's log and of the body, all of which see the
  incremented value and none of which is an increment, a decrement or the close of
  the client connection, then the decrement, seen as the old value, then at most the
  close of the client connection; and the counter ends at the old value; (2) the run
  is the handler's entry, body and deferred cleanup, taken one after the other on the
  shared counter; (3) with any number of handlers interleaved in any order, the
  shared counter is at every moment its initial value plus the number of handlers
  that have entered and not yet finished their cleanup.
\<close>

theorem handleConnection_connCnt_balanced:
  "(\<exists>logs body tail.
      trace_of (handleConnection getRequest dial c st) =
        (CntInc, connCnt st + 1) # map (\<lambda>e. (e, connCnt st + 1)) (logs @ body) @
        (CntDec, connCnt st) # tail \<and>
      (logs = [] \<or> logs = [LogReaches]) \<and>
      CntInc \<notin> set body \<and> CntDec \<notin> set body \<and> ConnClose \<notin> set body \<and>
      (tail = [] \<or> tail = [(ConnClose, connCnt st)])) \<and>
   connCnt (counters_of (handleConnection getRequest dial c st)) = connCnt st \<and>
   run_schedule getRequest dial [0, 0, 0] (accepted [c], (st, [])) =
     ([(c, Done (snd (handleConnection getRequest dial c st)))],
      fst (handleConnection getRequest dial c st)) \<and>
   connCnt (fst (snd (run_schedule getRequest dial sched (accepted cs, (st, tr))))) =
     connCnt st +
     of_nat (in_flight (fst (run_schedule getRequest dial sched (accepted cs, (st, tr)))))"
  using handleConnection_trace[of getRequest dial c st]
    handleConnection_as_steps[of getRequest dial c st]
    run_schedule_connCnt[of getRequest dial sched "(accepted cs, (st, tr))"]
  by simp

text \<open>
  When the request phase fails, the handler never dials.  It also never closes the
  client connection: both failure branches set \<open>closed = true\<close>, and the deferred
  function closes the connection only when \<open>closed\<close> is false.
\<close>

lemma handleConnection_request_error:
  assumes "getRequest c = Err e"
  shows "ConnClose \<notin> set (events_of (handleConnection getRequest dial c st))"
    and "Dial h \<notin> set (events_of (handleConnection getRequest dial c st))"
  using assms
  by (auto simp: handleConnection_def hc_body_def hc_enter_def deferred_conn_def emit_def
        Let_def events_of_def trace_of_def)

lemma handleConnection_NUL_host:
  assumes "getRequest c = Ok (host, c')" and "ContainsNUL host"
  shows "ConnClose \<notin> set (events_of (handleConnection getRequest dial c st))"
    and "Dial h \<notin> set (events_of (handleConnection getRequest dial c st))"
  using assms
  by (auto simp: handleConnection_def hc_body_def hc_enter_def deferred_conn_def emit_def
        Let_def events_of_def trace_of_def)

text \<open>A failed dial, in contrast, ends with the client connection closed.\<close>

lemma handleConnection_dial_error:
  assumes "getRequest c = Ok (host, c')" and "\<not> ContainsNUL host" and "dial host = Inl e"
  shows "last (events_of (handleConnection getRequest dial c st)) = ConnClose"
  using assms
  by (auto simp: handleConnection_def hc_body_def hc_enter_def deferred_conn_def emit_def
        Let_def events_of_def trace_of_def)

text \<open>
  Claim C3 says that after a failed request phase the handler closes the client
  connection and does not dial.  A client that closes at once (read error), or sends
  the unsupported address type 5, makes the handler of either copy of the server
  return after just the counter increment and decrement: no dial, and no close of the
  client connection.
\<close>

theorem handleConnection_request_failure_leaves_conn_open:
  "events_of (handleConnection (getRequest_full ipString) dial []
      \<lparr>connCnt = 0, nextLogConnCnt = 100\<rparr>) = [CntInc, CntDec] \<and>
   events_of (handleConnection (getRequest_full ipString) dial [[5]]
      \<lparr>connCnt = 0, nextLogConnCnt = 100\<rparr>) = [CntInc, CntDec] \<and>
   events_of (handleConnection (getRequest_once ipString (CipherStream (\<lambda>bs. bs))) dial [[5]]
      \<lparr>connCnt = 0, nextLogConnCnt = 100\<rparr>) = [CntInc, CntDec]"
  by code_simp

text \<open>
  Claim C6 says that a request whose host contains a NUL character is rejected by
  closing the client connection without dialling.  The domain request for the
  three-byte host \<open>a\<close>, NUL, \<open>b\<close> and port 80 decodes to a host with a NUL; the handler
  does not dial, and it does not close the client connection either.
\<close>

theorem handleConnection_NUL_host_leaves_conn_open:
  "getRequest_full ipString [[3, 3, 0x61, 0x00, 0x62, 0x00, 0x50]] =
     Ok ([CHR ''a'', CHR 0x00, CHR ''b'', CHR '':'', CHR ''8'', CHR ''0''], []) \<and>
   events_of (handleConnection (getRequest_full ipString) dial
      [[3, 3, 0x61, 0x00, 0x62, 0x00, 0x50]]
      \<lparr>connCnt = 0, nextLogConnCnt = 100\<rparr>) = [CntInc, CntDec]"
  by code_simp

section \<open>Reading from a connection\<close>

text \<open>
  What \<open>io.ReadFull\<close> returns depends only on the bytes the connection delivers, not on
  how they are cut into blocks: with at least \<open>n\<close> bytes to come it returns the first
  \<open>n\<close> of them and leaves the rest; with fewer it fails.
\<close>

declare ReadAtLeast.simps [simp del]

lemma ReadAtLeast_Inr:
  "ReadAtLeast need got r = Inr (bs, r') \<Longrightarrow>
     need \<le> length (concat r) \<and> bs = got @ take need (concat r) \<and> concat r' = drop need (concat r)"
proof (induction need got r arbitrary: bs r' rule: ReadAtLeast.induct)
  case (1 need got r)
  show ?case
  proof (cases "need = 0")
    case True
    with "1.prems" show ?thesis by (simp add: ReadAtLeast.simps)
  next
    case False
    show ?thesis
    proof (cases r)
      case Nil
      with False "1.prems" show ?thesis by (simp add: ReadAtLeast.simps)
    next
      case (Cons c cs)
      let ?r = "if need < length c then drop need c # cs else cs"
      from False Cons "1.prems"
      have rec: "ReadAtLeast (need - length (take need c)) (got @ take need c) ?r = Inr (bs, r')"
        by (simp add: ReadAtLeast.simps)
      from "1.IH"[OF False Cons rec]
      have ih: "need - length (take need c) \<le> length (concat ?r)"
        "bs = (got @ take need c) @ take (need - length (take need c)) (concat ?r)"
        "concat r' = drop (need - length (take need c)) (concat ?r)" by auto
      show ?thesis
      proof (cases "need < length c")
        case True
        with ih Cons show ?thesis by (simp add: min_def)
      next
        case False
        with ih Cons show ?thesis by (simp add: min_def)
      qed
    qed
  qed
qed

lemma ReadAtLeast_Inl:
  "ReadAtLeast need got r = Inl e \<Longrightarrow>
     length (concat r) < need \<and> e = (if got = [] \<and> concat r = [] then EOF else ErrUnexpectedEOF)"
proof (induction need got r rule: ReadAtLeast.induct)
  case (1 need got r)
  show ?case
  proof (cases "need = 0")
    case True
    with "1.prems" show ?thesis by (simp add: ReadAtLeast.simps)
  next
    case False
    show ?thesis
    proof (cases r)
      case Nil
      with False "1.prems" show ?thesis by (simp add: ReadAtLeast.simps)
    next
      case (Cons c cs)
      let ?r = "if need < length c then drop need c # cs else cs"
      from False Cons "1.prems"
      have rec: "ReadAtLeast (need - length (take need c)) (got @ take need c) ?r = Inl e"
        by (simp add: ReadAtLeast.simps)
      from "1.IH"[OF False Cons rec]
      have ih: "length (concat ?r) < need - length (take need c)"
        "e = (if got @ take need c = [] \<and> concat ?r = [] then EOF else ErrUnexpectedEOF)"
        by auto
      show ?thesis
      proof (cases "need < length c")
        case True
        with ih Cons show ?thesis by (simp add: min_def)
      next
        case nl: False
        with ih Cons False show ?thesis by (auto simp add: min_def)
      qed
    qed
  qed
qed

lemma ReadFull_Inr:
  "ReadFull n r = Inr (bs, r') \<Longrightarrow>
     n \<le> length (concat r) \<and> bs = take n (concat r) \<and> concat r' = drop n (concat r)"
  unfolding ReadFull_def by (drule ReadAtLeast_Inr) simp

lemma ReadFull_Inl:
  "ReadFull n r = Inl e \<Longrightarrow>
     length (concat r) < n \<and> e = (if concat r = [] then EOF else ErrUnexpectedEOF)"
  unfolding ReadFull_def by (drule ReadAtLeast_Inl) simp

lemma ReadFull_enough:
  assumes "n \<le> length (concat r)"
  obtains r' where "ReadFull n r = Inr (take n (concat r), r')" "concat r' = drop n (concat r)"
proof (cases "ReadFull n r")
  case (Inl e)
  from ReadFull_Inl[OF this] assms show ?thesis by simp
next
  case (Inr p)
  obtain bs r' where p: "p = (bs, r')" by (cases p)
  from ReadFull_Inr[OF Inr[unfolded p]] Inr p that show ?thesis by simp
qed

lemma ReadFull_short:
  "length (concat r) < n \<Longrightarrow>
     ReadFull n r = Inl (if concat r = [] then EOF else ErrUnexpectedEOF)"
proof (cases "ReadFull n r")
  case (Inl e)
  assume "length (concat r) < n"
  from ReadFull_Inl[OF Inl] Inl show ?thesis by simp
next
  case (Inr p)
  assume a: "length (concat r) < n"
  obtain bs r' where p: "p = (bs, r')" by (cases p)
  from ReadFull_Inr[OF Inr[unfolded p]] a show ?thesis by simp
qed


section \<open>Buffers and big-endian ports\<close>

lemma copy_into_fits:
  "i + length bs \<le> length buf \<Longrightarrow> copy_into buf i bs = take i buf @ bs @ drop (i + length bs) buf"
  by (simp add: copy_into_def)

lemma length_copy_into [simp]:
  "i + length bs \<le> length buf \<Longrightarrow> length (copy_into buf i bs) = length buf"
  by (simp add: copy_into_def)

lemma nth_copy_into_before:
  "i + length bs \<le> length buf \<Longrightarrow> k < i \<Longrightarrow> copy_into buf i bs ! k = buf ! k"
  by (simp add: copy_into_fits nth_append)

lemma nth_copy_into_at:
  "i + length bs \<le> length buf \<Longrightarrow> k < length bs \<Longrightarrow> copy_into buf i bs ! (i + k) = bs ! k"
  by (simp add: copy_into_fits nth_append)

lemma slice_copy_into:
  "i + length bs \<le> length buf \<Longrightarrow> a \<le> b \<Longrightarrow> b \<le> length bs \<Longrightarrow>
     slice (copy_into buf i bs) (i + a) (i + b) = take (b - a) (drop a bs)"
  by (simp add: copy_into_fits slice_def)

lemma BigEndian_Uint16_value:
  "uint (BigEndian_Uint16 [p0, p1]) = 256 * uint p0 + uint p1"
proof -
  have "(ucast p1 :: 16 word) AND push_bit 8 (ucast p0) = 0"
    by (rule bit_eqI) (auto simp: bit_simps dest: bit_imp_le_length)
  then have "(ucast p1 :: 16 word) OR push_bit 8 (ucast p0) = ucast p1 + push_bit 8 (ucast p0)"
    by (rule disjunctive_add_eq_or[symmetric])
  moreover have "uint (ucast p1 + push_bit 8 (ucast p0) :: 16 word) = uint p1 + 256 * uint p0"
  proof -
    have a: "uint p1 < 256" "uint p0 < 256" using uint_bounded[of p1] uint_bounded[of p0] by simp_all
    have b: "uint (ucast p1 :: 16 word) = uint p1" by (simp add: uint_up_ucast is_up)
    have c: "uint (push_bit 8 (ucast p0) :: 16 word) = 256 * uint p0"
      using a by (simp add: uint_word_ariths push_bit_eq_mult uint_up_ucast is_up take_bit_eq_mod)
    show ?thesis using a b c by (simp add: uint_word_ariths take_bit_eq_mod)
  qed
  ultimately show ?thesis by (simp add: BigEndian_Uint16_def)
qed


section \<open>Request decoding\<close>

text \<open>
  The older copy of \<open>getRequest\<close> returns the same host for every way of cutting the
  same request bytes into transport reads.
\<close>

lemma ReadFull_cong:
  assumes "concat r = concat r'"
  shows "(\<exists>e. ReadFull n r = Inl e \<and> ReadFull n r' = Inl e) \<or>
         (\<exists>bs r1 r1'. ReadFull n r = Inr (bs, r1) \<and> ReadFull n r' = Inr (bs, r1') \<and>
            concat r1 = concat r1')"
proof (cases "n \<le> length (concat r)")
  case True
  obtain r1 where a: "ReadFull n r = Inr (take n (concat r), r1)" "concat r1 = drop n (concat r)"
    using ReadFull_enough[OF True] by blast
  from True assms have "n \<le> length (concat r')" by simp
  then obtain r1' where b: "ReadFull n r' = Inr (take n (concat r'), r1')"
      "concat r1' = drop n (concat r')"
    using ReadFull_enough by blast
  from a b assms show ?thesis by simp
next
  case False
  then have "length (concat r) < n" by simp
  from ReadFull_short[OF this] ReadFull_short[of r' n] this assms show ?thesis by simp
qed

lemma getRequest_rest_cong:
  assumes "concat r = concat r'"
  shows "map_outcome fst (getRequest_rest ip t a b buf r) =
         map_outcome fst (getRequest_rest ip t a b buf r')"
  using ReadFull_cong[OF assms, of "b - a"]
  by (auto simp: getRequest_rest_def Let_def)

lemma getRequest_full_cong:
  assumes "concat r = concat r'"
  shows "map_outcome fst (getRequest_full ip r) = map_outcome fst (getRequest_full ip r')"
proof -
  from ReadFull_cong[OF assms, of "idType + 1"]
  show ?thesis
  proof (elim disjE exE conjE)
    fix e assume "ReadFull (idType + 1) r = Inl e" "ReadFull (idType + 1) r' = Inl e"
    then show ?thesis by (simp add: getRequest_full_def)
  next
    fix bs r1 r1'
    assume a: "ReadFull (idType + 1) r = Inr (bs, r1)" "ReadFull (idType + 1) r' = Inr (bs, r1')"
      and c: "concat r1 = concat r1'"
    from ReadFull_cong[OF c, of "idDmLen + 1 - (idType + 1)"]
    show ?thesis
    proof (elim disjE exE conjE)
      fix e assume "ReadFull (idDmLen + 1 - (idType + 1)) r1 = Inl e"
        "ReadFull (idDmLen + 1 - (idType + 1)) r1' = Inl e"
      with a getRequest_rest_cong[OF c] show ?thesis
        by (simp add: getRequest_full_def Let_def)
    next
      fix l r2 r2'
      assume "ReadFull (idDmLen + 1 - (idType + 1)) r1 = Inr (l, r2)"
        "ReadFull (idDmLen + 1 - (idType + 1)) r1' = Inr (l, r2')"
        "concat r2 = concat r2'"
      with a getRequest_rest_cong[OF c] getRequest_rest_cong[of r2 r2'] show ?thesis
        by (simp add: getRequest_full_def Let_def)
    qed
  qed
qed


text \<open>
  The newer copy of \<open>getRequest\<close> reads once: whatever later reads would deliver has no
  influence on its result.
\<close>

lemma getRequest_once_first_read_only:
  "map_outcome fst (getRequest_once ipString cipher (c # cs)) =
   map_outcome fst (getRequest_once ipString cipher [c])"
  by (simp add: getRequest_once_def Let_def)

text \<open>
  Claim C4 says that \<open>getRequest\<close> returns the same \<open>host:port\<close> however the request
  bytes are split across transport reads.  The request for \<open>example.com\<close>, port 443,
  is decoded by the newer copy when it arrives in one read; when the first read
  delivers only the address-type byte, the newer copy indexes \<open>data[idDmLen]\<close> beyond
  the one byte it has and panics.
\<close>

theorem getRequest_once_split_panics:
  "getRequest_once (\<lambda>b. []) (CipherStream (\<lambda>bs. bs))
     [[3], [11, 0x65, 0x78, 0x61, 0x6d, 0x70, 0x6c, 0x65, 0x2e, 0x63, 0x6f, 0x6d, 1, 0xbb]] = Panic \<and>
   getRequest_once (\<lambda>b. []) (CipherStream (\<lambda>bs. bs))
     [[3, 11, 0x65, 0x78, 0x61, 0x6d, 0x70, 0x6c, 0x65, 0x2e, 0x63, 0x6f, 0x6d, 1, 0xbb]]
     = Ok (''example.com:443'', [])"
  by code_simp

text \<open>
  Claim C5, as stated, promises \<open>domain:port\<close> with the domain bytes verbatim for every
  domain request.  The domain \<open>a:b\<close> with port 80 comes back in brackets, because
  \<open>net.JoinHostPort\<close> brackets every host that contains a colon.
\<close>

theorem getRequest_domain_with_colon:
  "getRequest_full (\<lambda>b. []) [[3, 3, 0x61, 0x3a, 0x62, 0, 80]] = Ok (''[a:b]:80'', []) \<and>
   ''[a:b]:80'' \<noteq> ''a:b:80''"
  by code_simp

text \<open>
  Claim C5, amended: for every domain request (address type with low four bits 3, a
  length byte \<open>l\<close>, \<open>l\<close> domain bytes, a two-byte big-endian port, possibly followed by
  further bytes, and cut into transport reads in any way) \<open>getRequest\<close> returns the
  domain bytes verbatim, a colon and the port in decimal when the domain contains no
  colon, and the domain in square brackets, a colon and the port in decimal when it
  does.
\<close>

theorem getRequest_domain:
  assumes req: "concat r = t # l # dm @ [p0, p1] @ extra"
    and ty: "t AND AddrMask = typeDm"
    and len: "length dm = unat l"
  shows "map_outcome fst (getRequest_full ipString r) =
     Ok (if CHR '':'' \<in> set (string_of_bytes dm)
         then ''['' @ string_of_bytes dm @ '']:'' @ Itoa (256 * uint p0 + uint p1)
         else string_of_bytes dm @ '':'' @ Itoa (256 * uint p0 + uint p1))"
proof -
  let ?buf = "replicate 269 (0 :: byte)"
  have l255: "unat l \<le> 255" using unsigned_less[of l, where ?'a = nat] by simp
  obtain r1 where r1: "ReadFull (idType + 1) r = Inr ([t], r1)"
      "concat r1 = l # dm @ [p0, p1] @ extra"
    using ReadFull_enough[of "idType + 1" r] req by (auto simp: idType_def)
  obtain r2 where r2: "ReadFull (idDmLen + 1 - (idType + 1)) r1 = Inr ([l], r2)"
      "concat r2 = dm @ [p0, p1] @ extra"
    using ReadFull_enough[of "idDmLen + 1 - (idType + 1)" r1] r1
    by (auto simp: idType_def idDmLen_def)
  let ?buf1 = "copy_into ?buf 0 [t]"
  let ?buf2 = "copy_into ?buf1 (idType + 1) [l]"
  have b1: "?buf1 ! idType = t" using nth_copy_into_at[of 0 "[t]" ?buf 0] by (simp add: idType_def)
  have lb1: "length ?buf1 = 269" by simp
  have b2: "?buf2 ! idDmLen = l" "?buf2 ! 0 = t" "length ?buf2 = 269"
    using nth_copy_into_at[of 1 "[l]" ?buf1 0] nth_copy_into_before[of 1 "[l]" ?buf1 0] b1 lb1
    by (simp_all add: idType_def idDmLen_def)
  let ?n = "unat l"
  obtain r3 where r3: "ReadFull (idDm0 + ?n + lenDmBase - idDm0) r2 = Inr (dm @ [p0, p1], r3)"
    using ReadFull_enough[of "idDm0 + ?n + lenDmBase - idDm0" r2] r2 len
    by (auto simp: idDm0_def lenDmBase_def)
  let ?buf3 = "copy_into ?buf2 idDm0 (dm @ [p0, p1])"
  have fits: "idDm0 + length (dm @ [p0, p1]) \<le> length ?buf2"
    using l255 len b2 by (simp add: idDm0_def)
  have b3l: "?buf3 ! idDmLen = l"
    using nth_copy_into_before[OF fits, of idDmLen] b2 by (simp add: idDm0_def idDmLen_def)
  have s1: "slice ?buf3 idDm0 (idDm0 + ?n) = dm"
    using slice_copy_into[OF fits, of 0 ?n] len by simp
  have s2: "slice ?buf3 (idDm0 + ?n + lenDmBase - 2) (idDm0 + ?n + lenDmBase) = [p0, p1]"
    using slice_copy_into[OF fits, of ?n "?n + 2"] len by (simp add: lenDmBase_def add.assoc)
  have rest: "getRequest_rest ipString t idDm0 (idDm0 + ?n + lenDmBase) ?buf2 r2 =
      Ok (JoinHostPort (string_of_bytes dm) (Itoa (256 * uint p0 + uint p1)), r3)"
    using r3 ty b3l s1 s2
    by (simp add: getRequest_rest_def Let_def BigEndian_Uint16_value typeDm_def typeIPv4_def typeIPv6_def)
  have "getRequest_full ipString r =
      Ok (JoinHostPort (string_of_bytes dm) (Itoa (256 * uint p0 + uint p1)), r3)"
    using r1 r2 b1 b2 ty rest
    by (simp add: getRequest_full_def Let_def typeDm_def typeIPv4_def typeIPv6_def)
  then show ?thesis by (simp add: JoinHostPort_def)
qed


text \<open>
  The amended claim C5 at the request for the 11-byte domain \<open>example.com\<close> with port
  443, delivered in two reads: the decoder yields \<open>example.com:443\<close>.
\<close>

theorem getRequest_domain_witness:
  "map_outcome fst (getRequest_full (\<lambda>b. [])
      [[3, 11, 0x65, 0x78, 0x61], [0x6d, 0x70, 0x6c, 0x65, 0x2e, 0x63, 0x6f, 0x6d, 1, 0xbb]]) =
   Ok ''example.com:443''"
proof -
  let ?dm = "[0x65, 0x78, 0x61, 0x6d, 0x70, 0x6c, 0x65, 0x2e, 0x63, 0x6f, 0x6d] :: byte list"
  have req: "concat [[3, 11, 0x65, 0x78, 0x61], [0x6d, 0x70, 0x6c, 0x65, 0x2e, 0x63, 0x6f, 0x6d, 1, 0xbb]]
      = (3 :: byte) # 11 # ?dm @ [1, 0xbb] @ []"
    by simp
  have ty: "(3 :: byte) AND AddrMask = typeDm"
    by (simp add: AddrMask_def typeDm_def)
  have len: "length ?dm = unat (11 :: byte)"
    by simp
  have host: "string_of_bytes ?dm = ''example.com''"
    by code_simp
  have port: "Itoa (256 * uint (1 :: byte) + uint (0xbb :: byte)) = ''443''"
    by code_simp
  from getRequest_domain[OF req ty len, of "\<lambda>b. []"]
  show ?thesis
    unfolding host port by simp
qed

section \<open>The password manager\<close>

text \<open>
  Claim C7: for a port that is registered, \<open>updatePortPasswd\<close> with the recorded
  password changes nothing (no socket closed, no server loop started, the registry
  and everything else as before); with a different password it closes exactly the old
  listener of that port and starts one server loop, after which exactly one socket is
  listening on the port, namely the new one, registered under the new password.  The
  hypothesis on the sockets says that the registered listener is the only socket bound
  to the port, which is what makes the new \<open>net.Listen\<close> succeed.
\<close>

theorem updatePortPasswd_registered:
  assumes reg: "pm_get port s = Some pl"
    and inv: "list_all (\<lambda>(i, p). p = port \<longrightarrow> i = listener pl) (socks s)"
  shows "(passwd = password pl \<longrightarrow> updatePortPasswd port passwd s = Some s) \<and>
         (passwd \<noteq> password pl \<longrightarrow>
            (\<exists>s'. updatePortPasswd port passwd s = Some s' \<and>
                  oplog s' = oplog s @ [Closed (listener pl), Started port passwd] \<and>
                  socks s' = filter (\<lambda>(i, p). i \<noteq> listener pl) (socks s) @ [(next_sock s, port)] \<and>
                  filter (\<lambda>(i, p). p = port) (socks s') = [(next_sock s, port)] \<and>
                  pm_get port s' = Some \<lparr>password = passwd, listener = next_sock s\<rparr>))"
proof -
  have free: "port \<notin> snd ` set (filter (\<lambda>(i, p). i \<noteq> listener pl) (socks s))"
    using inv by (auto simp: list_all_iff)
  have none: "filter (\<lambda>(i, p). p = port) (filter (\<lambda>(i, p). i \<noteq> listener pl) (socks s)) = []"
    using inv by (auto simp: list_all_iff filter_empty_conv)
  show ?thesis
    using reg free none
    by (auto simp: updatePortPasswd_def run_def Close_def pm_add_def pm_get_def)
qed

text \<open>
  Claim C7 on the server that listens on port 8388 with password \<open>pw\<close>: the same
  password is a no-op; the password \<open>new\<close> closes socket 0 and leaves socket 1 as the
  only listener, registered with the new password.
\<close>

theorem updatePortPasswd_registered_witness:
  "updatePortPasswd ''8388'' ''pw'' (server_8388 False) = Some (server_8388 False) \<and>
   (\<exists>s'. updatePortPasswd ''8388'' ''new'' (server_8388 False) = Some s' \<and>
         oplog s' = [Started ''8388'' ''pw'', Closed 0, Started ''8388'' ''new''] \<and>
         socks s' = [(1, ''8388'')] \<and>
         pm_get ''8388'' s' = Some \<lparr>password = ''new'', listener = 1\<rparr>)"
proof -
  let ?pl = "\<lparr>password = ''pw'', listener = 0\<rparr>"
  have reg: "pm_get ''8388'' (server_8388 False) = Some ?pl"
    by (simp add: pm_get_def server_8388_def)
  have inv: "list_all (\<lambda>(i, p). p = ''8388'' \<longrightarrow> i = listener ?pl) (socks (server_8388 False))"
    by (simp add: server_8388_def)
  have st: "socks (server_8388 False) = [(0, ''8388'')]" "next_sock (server_8388 False) = 1"
    "oplog (server_8388 False) = [Started ''8388'' ''pw'']"
    by (simp_all add: server_8388_def)
  from updatePortPasswd_registered[OF reg inv, of "''pw''"]
       updatePortPasswd_registered[OF reg inv, of "''new''"] st
  show ?thesis by auto
qed

section \<open>Configuration reload\<close>

text \<open>The state \<open>server_8388 u\<close> is what starting the server on port 8388 leaves.\<close>

lemma server_8388_startup:
  "run ''8388'' ''pw''
     \<lparr>portListener = Map.empty, udpListener = Map.empty, socks = [], next_sock = 0,
      oplog = [], udp = u,
      config = \<lparr>ServerPort = 0, Password = [], PortPassword = [(''8388'', ''pw'')]\<rparr>\<rparr>
   = Some (server_8388 u)"
  by (simp add: run_def pm_add_def server_8388_def)

text \<open>
  Claim C8 says that after a reload the listener of a port that the new configuration
  omits is closed and its record removed.  On a server started with the UDP flag,
  reloading from port 8388 to port 8389 leaves port 8388 registered and listening and
  closes no socket: \<open>del\<close> looks the port up among the UDP listeners, which nothing
  ever registers, and returns before it closes or deletes anything.
\<close>

theorem updatePasswd_udp_keeps_removed_port:
  "map_option (\<lambda>s. (pm_get ''8388'' s, listening_ports s, oplog s))
     (updatePasswd fatalExits (Inr config_8389) (server_8388 True)) =
   Some (Some \<lparr>password = ''pw'', listener = 0\<rparr>, [''8388'', ''8389''],
         [Started ''8388'' ''pw'', Started ''8389'' ''pw''])"
  by (simp add: updatePasswd_def unifyPortPassword_def config_8389_def server_8388_def
        updatePortPasswd_def pm_get_def pm_getUDP_def run_def pm_add_def pm_del_def Close_def
        listening_ports_def Let_def)

text \<open>Without the UDP flag the same reload closes socket 0 and removes port 8388.\<close>

lemma updatePasswd_no_udp_example:
  "map_option (\<lambda>s. (pm_get ''8388'' s, listening_ports s, oplog s))
     (updatePasswd fatalExits (Inr config_8389) (server_8388 False)) =
   Some (None, [''8389''],
         [Started ''8388'' ''pw'', Started ''8389'' ''pw'', Closed 0])"
  by (simp add: updatePasswd_def unifyPortPassword_def config_8389_def server_8388_def
        updatePortPasswd_def pm_get_def pm_getUDP_def run_def pm_add_def pm_del_def Close_def
        listening_ports_def Let_def)

text \<open>
  In general, without the UDP flag: from a state in which every open socket is the
  registered listener of its port and every registered port is in the old
  configuration, a reload whose configuration is accepted by \<open>unifyPortPassword\<close>
  completes, leaves only ports of the new configuration registered, and leaves every
  port that only the old configuration had unregistered and without a listening socket.
\<close>

lemma socks_registeredD:
  "socks_registered s \<Longrightarrow> (i, p) \<in> set (socks s) \<Longrightarrow> \<exists>pl. portListener s p = Some pl \<and> listener pl = i"
  by (auto simp: socks_registered_def list_all_iff split: option.splits)

lemma updatePortPasswd_inv:
  assumes inv: "socks_registered s"
  shows "\<exists>s'. updatePortPasswd port passwd s = Some s' \<and> socks_registered s' \<and>
           udp s' = udp s \<and> udpListener s' = udpListener s \<and>
           dom (portListener s') = insert port (dom (portListener s))"
proof (cases "portListener s port")
  case None
  have free: "port \<notin> snd ` set (socks s)"
    using socks_registeredD[OF inv] None by force
  show ?thesis
    using None free inv
    by (auto simp: updatePortPasswd_def pm_get_def run_def pm_add_def socks_registered_def
          list_all_iff split: option.splits)
next
  case (Some pl)
  show ?thesis
  proof (cases "password pl = passwd")
    case True
    with Some inv show ?thesis by (auto simp: updatePortPasswd_def pm_get_def)
  next
    case False
    have free: "port \<notin> snd ` set (filter (\<lambda>(i, p). i \<noteq> listener pl) (socks s))"
      using socks_registeredD[OF inv] Some by force
    show ?thesis
      using Some False free inv
      by (auto simp: updatePortPasswd_def pm_get_def run_def pm_add_def Close_def
            socks_registered_def list_all_iff split: option.splits)
  qed
qed

lemma pm_del_inv:
  assumes inv: "socks_registered s" and nu: "\<not> udp s"
  shows "socks_registered (pm_del port s) \<and> \<not> udp (pm_del port s) \<and>
         dom (portListener (pm_del port s)) = dom (portListener s) - {port} \<and>
         port \<notin> snd ` set (socks (pm_del port s))"
proof (cases "portListener s port")
  case None
  have "port \<notin> snd ` set (socks s)"
    using socks_registeredD[OF inv] None by force
  with None inv nu show ?thesis by (auto simp: pm_del_def pm_get_def)
next
  case (Some pl)
  have free: "port \<notin> snd ` set (filter (\<lambda>(i, p). i \<noteq> listener pl) (socks s))"
    using socks_registeredD[OF inv] Some by force
  show ?thesis
    using Some nu free inv
    by (auto simp: pm_del_def pm_get_def Close_def Let_def socks_registered_def list_all_iff
          split: option.splits)
qed

lemma pm_del_socks_subset: "set (socks (pm_del port s)) \<subseteq> set (socks s)"
  by (auto simp: pm_del_def pm_get_def Close_def Let_def split: option.splits)

lemma update_ports_inv:
  "socks_registered s \<Longrightarrow>
   \<exists>s'. update_ports new old s = Some (filter (\<lambda>(k, v). k \<notin> fst ` set new) old, s') \<and>
        socks_registered s' \<and> udp s' = udp s \<and>
        dom (portListener s') = fst ` set new \<union> dom (portListener s)"
proof (induction new arbitrary: old s)
  case Nil
  then show ?case by simp
next
  case (Cons a new)
  obtain port passwd where a: "a = (port, passwd)" by (cases a)
  from updatePortPasswd_inv[OF Cons.prems, of port passwd] obtain s1 where
    s1: "updatePortPasswd port passwd s = Some s1" "socks_registered s1" "udp s1 = udp s"
      "dom (portListener s1) = insert port (dom (portListener s))" by blast
  from Cons.IH[OF s1(2), of "filter (\<lambda>(k, v). k \<noteq> port) old"] obtain s' where
    s': "update_ports new (filter (\<lambda>(k, v). k \<noteq> port) old) s1 =
           Some (filter (\<lambda>(k, v). k \<notin> fst ` set new) (filter (\<lambda>(k, v). k \<noteq> port) old), s')"
      "socks_registered s'" "udp s' = udp s1"
      "dom (portListener s') = fst ` set new \<union> dom (portListener s1)" by blast
  have f: "filter (\<lambda>(k, v). k \<notin> fst ` set new) (filter (\<lambda>(k, v). k \<noteq> port) old) =
           filter (\<lambda>(k, v). k \<notin> fst ` set (a # new)) old"
    unfolding a by (induction old) auto
  show ?case
    using s1 s' unfolding a f[unfolded a] by auto
qed

lemma del_ports_inv:
  "socks_registered s \<Longrightarrow> \<not> udp s \<Longrightarrow>
   socks_registered (del_ports old s) \<and> \<not> udp (del_ports old s) \<and>
   dom (portListener (del_ports old s)) = dom (portListener s) - fst ` set old \<and>
   (\<forall>p \<in> fst ` set old. p \<notin> snd ` set (socks (del_ports old s)))"
proof (induction old arbitrary: s)
  case Nil
  then show ?case by simp
next
  case (Cons a old)
  obtain port passwd where a: "a = (port, passwd)" by (cases a)
  note d = pm_del_inv[OF Cons.prems, of port]
  from d have i1: "socks_registered (pm_del port s)" and u1: "\<not> udp (pm_del port s)" by simp_all
  note ih = Cons.IH[OF i1 u1]
  have sub: "\<And>s. set (socks (del_ports old s)) \<subseteq> set (socks s)"
  proof -
    fix s show "set (socks (del_ports old s)) \<subseteq> set (socks s)"
    proof (induction old arbitrary: s)
      case Nil then show ?case by simp
    next
      case (Cons b old)
      obtain q w where b: "b = (q, w)" by (cases b)
      show ?case unfolding b using Cons[of "pm_del q s"] pm_del_socks_subset[of q s] by auto
    qed
  qed
  have "port \<notin> snd ` set (socks (del_ports old (pm_del port s)))"
    using d sub[of "pm_del port s"] by auto
  with ih d show ?case unfolding a by auto
qed

lemma updatePasswd_no_udp:
  assumes inv: "socks_registered s" and nu: "\<not> udp s"
    and reg: "dom (portListener s) \<subseteq> fst ` set (PortPassword (config s))"
    and uni: "unifyPortPassword fatalExits newconfig = Some (Inr cfg)"
  shows "\<exists>s'. updatePasswd fatalExits (Inr newconfig) s = Some s' \<and>
           dom (portListener s') \<subseteq> fst ` set (PortPassword cfg) \<and>
           (\<forall>p \<in> fst ` set (PortPassword (config s)) - fst ` set (PortPassword cfg).
               pm_get p s' = None \<and> p \<notin> snd ` set (socks s'))"
proof -
  let ?s2 = "s\<lparr>config := cfg\<rparr>"
  let ?old = "filter (\<lambda>(k, v). k \<notin> fst ` set (PortPassword cfg)) (PortPassword (config s))"
  have inv2: "socks_registered ?s2" using inv by (simp add: socks_registered_def)
  from update_ports_inv[OF inv2, of "PortPassword cfg" "PortPassword (config s)"] obtain s3 where
    s3: "update_ports (PortPassword cfg) (PortPassword (config s)) ?s2 = Some (?old, s3)"
      "socks_registered s3" "udp s3 = udp ?s2"
      "dom (portListener s3) = fst ` set (PortPassword cfg) \<union> dom (portListener ?s2)" by blast
  have nu3: "\<not> udp s3" using s3 nu by simp
  note d = del_ports_inv[OF s3(2) nu3, of ?old]
  have oldset: "fst ` set ?old = fst ` set (PortPassword (config s)) - fst ` set (PortPassword cfg)"
    by force
  have res: "updatePasswd fatalExits (Inr newconfig) s = Some (del_ports ?old s3)"
    using uni s3 by (simp add: updatePasswd_def Let_def)
  show ?thesis
    unfolding res using d s3 reg unfolding oldset
    by (auto simp: pm_get_def)
qed

section \<open>AEAD packing and unpacking\<close>

text \<open>
  With a well-behaved AEAD primitive, one turn of the loop of \<open>Pack\<close> appends the
  frame of \<open>packet_data[:payload_len]\<close> to the buffer and uses two nonces.
\<close>

lemma aead_ok_Seal:
  assumes "aead_ok a"
  shows "Seal a n pt = Some (sealed a n pt)" "length (sealed a n pt) = length pt + Overhead a"
    "Open a n (sealed a n pt) = Some pt"
  using assms[unfolded aead_ok_def, rule_format, of n pt] by (auto simp: sealed_def)

lemma copy_into_all: "length bs = length buf \<Longrightarrow> copy_into buf 0 bs = bs"
  by (simp add: copy_into_def)

lemma Pack_step:
  assumes ok: "aead_ok a" and le: "packet_len \<le> length packet_data"
  shows "Pack_loop a (Suc k) packet_len packet_data c =
     Pack_loop a k (packet_len - min packet_len (nat getPayloadSizeMask)) packet_data
       (c\<lparr>dataBuffer := dataBuffer c @ frame a (nonce c) (take (min packet_len (nat getPayloadSizeMask)) packet_data),
          nonce := nonce c + 2\<rparr>)"
proof -
  let ?pl = "min packet_len (nat getPayloadSizeMask)"
  let ?ov = "Overhead a"
  let ?N = "2 + ?ov + ?pl + ?ov"
  let ?b1 = "(replicate ?N (0 :: byte))[0 := word_of_nat (drop_bit 8 ?pl), 1 := word_of_nat ?pl]"
  have pl: "(if int packet_len > getPayloadSizeMask then nat getPayloadSizeMask else packet_len) = ?pl"
    by (auto simp: getPayloadSizeMask_def min_def)
  have b1: "?b1 = header_of ?pl @ replicate (?ov + ?pl + ?ov) 0"
    by (simp add: header_of_def replicate_add list_update_append1 flip: append_assoc)
  have s1: "slice ?b1 0 2 = header_of ?pl"
    unfolding b1 by (simp add: slice_def header_of_def)
  let ?ct1 = "sealed a (nonce c) (header_of ?pl)"
  have l1: "length ?ct1 = 2 + ?ov" using aead_ok_Seal(2)[OF ok] by (simp add: header_of_def)
  have e1: "Encrypt a (nonce c) ?b1 (slice ?b1 0 2) =
      Inr (?ct1 @ replicate (?pl + ?ov) 0, nonce c + 1)"
    unfolding s1 using aead_ok_Seal(1)[OF ok] l1
    by (simp add: Encrypt_def b1 copy_into_def header_of_def)
  let ?b2 = "?ct1 @ replicate (?pl + ?ov) (0 :: byte)"
  have s2: "slice ?b2 (2 + ?ov) (2 + ?ov + ?pl + ?ov) = replicate (?pl + ?ov) 0"
    using l1 by (simp add: slice_def)
  let ?p = "take ?pl packet_data"
  have lp: "length ?p = ?pl" using le by simp
  let ?ct2 = "sealed a (nonce c + 1) ?p"
  have l2: "length ?ct2 = ?pl + ?ov" using aead_ok_Seal(2)[OF ok, of "nonce c + 1" ?p] lp by simp
  have e2: "Encrypt a (nonce c + 1) (replicate (?pl + ?ov) 0) ?p = Inr (?ct2, nonce c + 2)"
    using aead_ok_Seal(1)[OF ok] l2 by (simp add: Encrypt_def copy_into_all)
  have c3: "copy_into ?b2 (2 + ?ov) ?ct2 = ?ct1 @ ?ct2"
    using l1 l2 by (simp add: copy_into_def)
  have fr: "?ct1 @ ?ct2 = frame a (nonce c) ?p"
    using lp by (simp add: frame_def)
  show ?thesis
    apply (subst Pack_loop.simps)
    apply (simp only: pl Let_def)
    apply (simp only: e1 sum.case prod.case s2 e2 c3 fr)
    done
qed

text \<open>
  So \<open>Pack\<close> writes the frames of \<open>payloads\<close>, one \<open>UnPack\<close> consumes one frame and
  appends its payload, and packing followed by unpacking once per chunk yields the
  concatenation of \<open>payloads\<close>, whatever blocks the transport delivers.
\<close>

lemma Pack_loop_frames:
  assumes ok: "aead_ok a"
  shows "packet_len \<le> length packet_data \<Longrightarrow>
    Pack_loop a k packet_len packet_data c =
      (None, c\<lparr>dataBuffer := dataBuffer c @ frames a (nonce c) (payloads k packet_len packet_data),
               nonce := nonce c + 2 * k\<rparr>)"
proof (induction k arbitrary: packet_len c)
  case 0
  then show ?case by simp
next
  case (Suc k)
  have le: "packet_len - min packet_len (nat getPayloadSizeMask) \<le> length packet_data"
    using Suc.prems by simp
  show ?case
    unfolding Pack_step[OF ok Suc.prems] Suc.IH[OF le] by simp
qed

lemma header_of_size:
  assumes "n < 65536"
  shows "payload_size_of (header_of n ! 0) (header_of n ! 1) = int n"
proof -
  have a: "uint (word_of_nat (drop_bit 8 n) :: byte) = int (n div 256)"
    using assms by (simp add: unsigned_of_nat drop_bit_eq_div take_bit_eq_mod flip: zdiv_int)
  have b: "uint (word_of_nat n :: byte) = int (n mod 256)"
    by (simp add: unsigned_of_nat take_bit_eq_mod flip: zmod_int)
  have "int n = int (256 * (n div 256) + n mod 256)" by simp
  then have c: "256 * int (n div 256) + int (n mod 256) = int n"
    by (simp only: of_nat_add of_nat_mult)
  show ?thesis
    unfolding payload_size_of_unmasked header_of_def using a b c by simp
qed

lemma UnPack_frame:
  assumes ok: "aead_ok a"
    and rd: "concat (reader c) = frame a (nonce c) p @ rest"
    and len: "length p < 65536"
  shows "\<exists>r'. UnPack a c = (None, c\<lparr>dataBuffer := dataBuffer c @ p, reader := r',
                                     nonce := nonce c + 2\<rparr>) \<and> concat r' = rest"
proof -
  let ?ov = "Overhead a"
  let ?ct1 = "sealed a (nonce c) (header_of (length p))"
  let ?ct2 = "sealed a (nonce c + 1) p"
  have l1: "length ?ct1 = 2 + ?ov" using aead_ok_Seal(2)[OF ok] by (simp add: header_of_def)
  have l2: "length ?ct2 = length p + ?ov" using aead_ok_Seal(2)[OF ok] by simp
  have rd': "concat (reader c) = ?ct1 @ ?ct2 @ rest" using rd by (simp add: frame_def)
  obtain r1 where r1: "ReadFull (2 + ?ov) (reader c) = Inr (?ct1, r1)" "concat r1 = ?ct2 @ rest"
    using ReadFull_enough[of "2 + ?ov" "reader c"] rd' l1 by auto
  have d1: "Decrypt a (nonce c) ?ct1 ?ct1 =
      Inr (header_of (length p) @ drop 2 ?ct1, nonce c + 1)"
    using aead_ok_Seal(3)[OF ok] l1 by (simp add: Decrypt_def copy_into_def header_of_def numeral_2_eq_2)
  have h: "(header_of (length p) @ drop 2 ?ct1) ! 0 = header_of (length p) ! 0"
    "(header_of (length p) @ drop 2 ?ct1) ! 1 = header_of (length p) ! 1"
    by (simp_all add: header_of_def)
  have sz: "nat (payload_size_of ((header_of (length p) @ drop 2 ?ct1) ! 0)
                                ((header_of (length p) @ drop 2 ?ct1) ! 1)) = length p"
    unfolding h header_of_size[OF len] by simp
  obtain r2 where r2: "ReadFull (length p + ?ov) r1 = Inr (?ct2, r2)" "concat r2 = rest"
    using ReadFull_enough[of "length p + ?ov" r1] r1 l2 by auto
  have d2: "Decrypt a (nonce c + 1) ?ct2 ?ct2 = Inr (p @ drop (length p) ?ct2, nonce c + 2)"
    using aead_ok_Seal(3)[OF ok] l2 by (simp add: Decrypt_def copy_into_def)
  have "UnPack a c = (None, c\<lparr>dataBuffer := dataBuffer c @ p, reader := r2,
                                     nonce := nonce c + 2\<rparr>)"
    unfolding UnPack_def
    by (simp only: r1 sum.case prod.case d1 Let_def sz r2 d2) simp
  with r2 show ?thesis by blast
qed

lemma UnPack_times_frames:
  assumes ok: "aead_ok a"
  shows "concat (reader c) = frames a (nonce c) ps @ rest \<Longrightarrow>
    list_all (\<lambda>p. length p < 65536) ps \<Longrightarrow>
    \<exists>r'. UnPack_times a (length ps) c =
            (None, c\<lparr>dataBuffer := dataBuffer c @ concat ps, reader := r',
                     nonce := nonce c + 2 * length ps\<rparr>) \<and> concat r' = rest"
proof (induction ps arbitrary: c)
  case Nil
  then show ?case by (auto intro: exI[of _ "reader c"])
next
  case (Cons p ps)
  from Cons.prems have rd: "concat (reader c) = frame a (nonce c) p @ (frames a (nonce c + 2) ps @ rest)"
    and len: "length p < 65536" and all: "list_all (\<lambda>p. length p < 65536) ps"
    by simp_all
  from UnPack_frame[OF ok rd len] obtain r1 where
    u: "UnPack a c = (None, c\<lparr>dataBuffer := dataBuffer c @ p, reader := r1, nonce := nonce c + 2\<rparr>)"
    and r1: "concat r1 = frames a (nonce c + 2) ps @ rest" by blast
  let ?c1 = "c\<lparr>dataBuffer := dataBuffer c @ p, reader := r1, nonce := nonce c + 2\<rparr>"
  have "concat (reader ?c1) = frames a (nonce ?c1) ps @ rest" using r1 by simp
  from Cons.IH[OF this all] obtain r' where
    "UnPack_times a (length ps) ?c1 =
       (None, ?c1\<lparr>dataBuffer := dataBuffer ?c1 @ concat ps, reader := r',
                  nonce := nonce ?c1 + 2 * length ps\<rparr>)" "concat r' = rest" by blast
  with u show ?case by (intro exI[of _ r']) simp
qed

declare blocks.simps [simp del]

lemma concat_blocks: "concat (blocks blk bs) = bs"
proof (induction blk bs rule: blocks.induct)
  case (1 blk bs)
  show ?case
  proof (cases "blk = 0 \<or> length bs \<le> blk")
    case True
    then show ?thesis by (subst blocks.simps) auto
  next
    case False
    with 1 show ?thesis by (subst blocks.simps) simp
  qed
qed

lemma length_payloads: "length (payloads k n d) = k"
  by (induction k arbitrary: n) simp_all

lemma payloads_small: "list_all (\<lambda>p. length p \<le> nat getPayloadSizeMask) (payloads k n d)"
  by (induction k arbitrary: n) simp_all

lemma pack_then_unpack_payloads:
  assumes ok: "aead_ok a"
  shows "pack_then_unpack a blk packet_data =
     Inr (concat (payloads (chunk_num (length packet_data)) (length packet_data) packet_data))"
proof -
  let ?k = "chunk_num (length packet_data)"
  let ?ps = "payloads ?k (length packet_data) packet_data"
  have p: "Pack a packet_data (fresh_conn []) =
      (None, (fresh_conn [])\<lparr>dataBuffer := frames a 0 ?ps, nonce := 2 * ?k\<rparr>)"
    unfolding Pack_def by (subst Pack_loop_frames[OF ok]) (simp_all add: fresh_conn_def)
  let ?c = "fresh_conn (blocks blk (frames a 0 ?ps))"
  have rd: "concat (reader ?c) = frames a (nonce ?c) ?ps @ []"
    by (simp add: fresh_conn_def concat_blocks)
  have all: "list_all (\<lambda>p. length p < 65536) ?ps"
    using payloads_small[of ?k "length packet_data" packet_data]
    by (auto simp: list_all_iff getPayloadSizeMask_def)
  from UnPack_times_frames[OF ok rd all] obtain r' where
    u: "UnPack_times a ?k ?c = (None, ?c\<lparr>dataBuffer := dataBuffer ?c @ concat ?ps, reader := r',
                     nonce := nonce ?c + 2 * ?k\<rparr>)"
    by (auto simp: length_payloads)
  show ?thesis
    unfolding pack_then_unpack_def p by (simp add: u) (simp add: fresh_conn_def)
qed

lemma aead_ok_xor_aead: "aead_ok xor_aead"
  by (auto simp: aead_ok_def xor_aead_def comp_def xor.assoc)

lemma pack_then_unpack_one_chunk:
  assumes ok: "aead_ok a" and le: "length packet_data \<le> nat getPayloadSizeMask"
  shows "pack_then_unpack a blk packet_data = Inr packet_data"
proof (cases "packet_data = []")
  case True
  then show ?thesis unfolding pack_then_unpack_payloads[OF ok]
    by (simp add: chunk_num_def getPayloadSizeMask_def)
next
  case False
  then have "chunk_num (length packet_data) = Suc 0"
    using le by (cases packet_data) (simp_all add: chunk_num_def getPayloadSizeMask_def)
  then show ?thesis unfolding pack_then_unpack_payloads[OF ok]
    using le by simp
qed

text \<open>
  The number of chunks is the ceiling of \<open>n / 0x3FFF\<close>, and no chunk carries more
  than \<open>0x3FFF\<close> payload bytes.
\<close>

lemma chunk_num_ceiling:
  "n \<le> chunk_num n * 16383 \<and> chunk_num n * 16383 < n + 16383"
proof -
  have "chunk_num n = (n + 16382) div 16383"
    by (simp add: chunk_num_def getPayloadSizeMask_def)
  then show ?thesis by auto
qed

lemma Pack_chunks:
  assumes "aead_ok a"
  shows "Pack a packet_data (fresh_conn []) =
           (None, \<lparr>dataBuffer = frames a 0 (payloads (chunk_num (length packet_data))
                                    (length packet_data) packet_data),
                   reader = [], nonce = 2 * chunk_num (length packet_data)\<rparr>)"
    and "length (payloads (chunk_num (length packet_data)) (length packet_data) packet_data) =
           chunk_num (length packet_data)"
    and "list_all (\<lambda>p. length p \<le> 16383)
           (payloads (chunk_num (length packet_data)) (length packet_data) packet_data)"
  using Pack_loop_frames[OF assms, of "length packet_data" packet_data
          "chunk_num (length packet_data)" "fresh_conn []"]
    payloads_small[of "chunk_num (length packet_data)" "length packet_data" packet_data]
  by (simp_all add: Pack_def fresh_conn_def length_payloads getPayloadSizeMask_def)

text \<open>
  Claim C1 says that packing \<open>n\<close> bytes and unpacking once per chunk reproduces the
  bytes for every \<open>n\<close> up to \<open>5 * 0x3FFF\<close>.  For 16384 bytes, 16383 zeros followed by
  a one, the receiver ends up with 16384 zeros, however the transport cuts the stream
  into blocks: the second chunk carries the first byte of the input again instead of
  its last byte, because every chunk takes \<open>packet_data[:payload_len]\<close>.
\<close>

theorem pack_then_unpack_repeats_first_bytes:
  "pack_then_unpack xor_aead blk (replicate 16383 0 @ [1]) = Inr (replicate 16383 0 @ [0])"
proof -
  have k: "chunk_num (length (replicate 16383 (0::byte) @ [1])) = Suc (Suc 0)"
    by (simp add: chunk_num_def getPayloadSizeMask_def)
  show ?thesis
    unfolding pack_then_unpack_payloads[OF aead_ok_xor_aead] k
    by (simp add: getPayloadSizeMask_def)
qed

end
